theory Spec2Isabelle
  imports Main "HOL-Library.Word" "HOL-Library.Sublist" "HOL-Library.Log_Nat" "HOL-Library.AList"
begin

unbundle bit_operations_syntax

section \<open>Record model (package model)\<close>

text \<open>
  Go strings are byte sequences; they are modelled as \<^typ>\<open>string\<close> (a list of 8-bit
  characters).  \<open>strings.TrimSpace\<close> removes leading and trailing white space "as defined
  by Unicode": the runes U+0009..U+000D, U+0020, U+0085, U+00A0, U+1680, U+2000..U+200A,
  U+2028, U+2029, U+202F, U+205F and U+3000.  The list below holds their UTF-8 encodings;
  a byte that is not part of such an encoding decodes to a rune that is not white space.
\<close>

definition spaceEncodings :: "string list" where
  "spaceEncodings =
    [ [CHR 0x09], [CHR 0x0A], [CHR 0x0B], [CHR 0x0C], [CHR 0x0D], [CHR 0x20],
     [CHR 0xC2, CHR 0x85], [CHR 0xC2, CHR 0xA0],
     [CHR 0xE1, CHR 0x9A, CHR 0x80],
     [CHR 0xE2, CHR 0x80, CHR 0x80], [CHR 0xE2, CHR 0x80, CHR 0x81],
     [CHR 0xE2, CHR 0x80, CHR 0x82], [CHR 0xE2, CHR 0x80, CHR 0x83],
     [CHR 0xE2, CHR 0x80, CHR 0x84], [CHR 0xE2, CHR 0x80, CHR 0x85],
     [CHR 0xE2, CHR 0x80, CHR 0x86], [CHR 0xE2, CHR 0x80, CHR 0x87],
     [CHR 0xE2, CHR 0x80, CHR 0x88], [CHR 0xE2, CHR 0x80, CHR 0x89],
     [CHR 0xE2, CHR 0x80, CHR 0x8A],
     [CHR 0xE2, CHR 0x80, CHR 0xA8], [CHR 0xE2, CHR 0x80, CHR 0xA9],
     [CHR 0xE2, CHR 0x80, CHR 0xAF], [CHR 0xE2, CHR 0x81, CHR 0x9F],
     [CHR 0xE3, CHR 0x80, CHR 0x80]]"

text \<open>The white-space rune, if any, whose encoding starts the byte string.\<close>

definition leadingSpace :: "string list \<Rightarrow> string \<Rightarrow> string option" where
  "leadingSpace encs s = find (\<lambda>p. p \<noteq> [] \<and> prefix p s) encs"

function trimLeftWith :: "string list \<Rightarrow> string \<Rightarrow> string" where
  "trimLeftWith encs s =
     (case leadingSpace encs s of
        None \<Rightarrow> s
      | Some p \<Rightarrow> trimLeftWith encs (drop (length p) s))"
  by pat_completeness auto
termination
proof (relation "measure (\<lambda>(encs, s). length s)")
  show "wf (measure (\<lambda>(encs, s). length s))" by simp
next
  fix encs :: "string list" and s p :: string
  assume "leadingSpace encs s = Some p"
  then have "p \<noteq> []" "prefix p s"
    by (auto simp: leadingSpace_def find_Some_iff)
  then have "s \<noteq> []" by auto
  with \<open>p \<noteq> []\<close> show "((encs, drop (length p) s), (encs, s)) \<in> measure (\<lambda>(encs, s). length s)"
    by simp
qed

text \<open>
  Trailing white space is removed by the same scan on the reversed byte string with the
  reversed encodings (a rune's encoding is a start byte followed by continuation bytes, so
  the last rune is a white-space rune exactly when its encoding is a suffix).
\<close>

definition TrimSpace :: "string \<Rightarrow> string" where
  "TrimSpace s =
     rev (trimLeftWith (map rev spaceEncodings) (rev (trimLeftWith spaceEncodings s)))"

record TrackingInfo =
  OrderNumber :: string
  TrackingNumber :: string
  CarrierCode :: string
  Title :: string

datatype field = FOrderNumber | FTrackingNumber | FCarrierCode | FTitle

text \<open>
  Go errors are modelled by what they say.  \<open>Required f\<close> is the validator's
  "<field> is required"; \<open>Wrap msg e\<close> is \<open>fmt.Errorf("msg: %w", e)\<close>; \<open>LibError\<close> is an
  error value produced by a library call (transport, JSON decoding, request construction).
\<close>

datatype error =
    Required field
  | Wrap string error
  | OrderNotFound string
  | RequestFailed nat error
  | ApiError int string
  | MaxRetriesExceeded
  | LibError string

definition Validate :: "TrackingInfo \<Rightarrow> error option" where
  "Validate t =
     (if TrimSpace (OrderNumber t) = [] then Some (Required FOrderNumber)
      else if TrimSpace (TrackingNumber t) = [] then Some (Required FTrackingNumber)
      else if TrimSpace (CarrierCode t) = [] then Some (Required FCarrierCode)
      else if TrimSpace (Title t) = [] then Some (Required FTitle)
      else None)"

text \<open>The validator's contract in the specification's words: the fixed check order, and
  the value of each field.\<close>

definition checkOrder :: "field list" where
  "checkOrder = [FOrderNumber, FTrackingNumber, FCarrierCode, FTitle]"

fun fieldValue :: "TrackingInfo \<Rightarrow> field \<Rightarrow> string" where
  "fieldValue t FOrderNumber = OrderNumber t"
| "fieldValue t FTrackingNumber = TrackingNumber t"
| "fieldValue t FCarrierCode = CarrierCode t"
| "fieldValue t FTitle = Title t"

definition missing :: "TrackingInfo \<Rightarrow> field \<Rightarrow> bool" where
  "missing t f = (TrimSpace (fieldValue t f) = [])"


section \<open>Remote update client (package api)\<close>

text \<open>\<open>time.Duration\<close> is a signed 64-bit count of nanoseconds; multiplication wraps.\<close>

type_synonym duration = "64 word"

text \<open>
  The part of \<open>*http.Request\<close> the client sets: method, URL, header and body.  The body is
  \<open>None\<close> for Go's \<open>nil\<close> and otherwise the bytes the installed reader holds.
\<close>

record request =
  req_method :: string
  req_url :: string
  req_header :: "(string \<times> string) list"
  req_body :: "string option"

text \<open>
  The result \<open>(resp, err)\<close> of one \<open>httpClient.Do(req)\<close>: either \<open>err \<noteq> nil\<close>, or a response
  with its status code and the bytes its body yields.
\<close>

datatype outcome = TransportError string | Response int string

text \<open>What \<open>reader.Read()\<close> of \<open>encoding/csv\<close> returns: \<open>io.EOF\<close>, another error, or a record.\<close>

datatype read_result = EOF | ReadError | Record "string list"

text \<open>
  Every interaction with the outside world is appended to a trace.  The remote service and
  the network are an oracle \<open>env\<close> that answers a request in view of the whole history, so
  any deterministic behaviour of the service is an instance.
\<close>

datatype event = EvRead read_result | EvDo request outcome | EvSleep duration

type_synonym env = "event list \<Rightarrow> request \<Rightarrow> outcome"

record MagentoClient =
  baseURL :: string
  token :: string
  maxRetries :: int
  backoff :: duration

record Address =
  addr_FirstName :: string
  addr_LastName :: string
  addr_Street :: "string list"
  addr_City :: string
  addr_PostalCode :: string
  addr_CountryID :: string
  addr_Telephone :: string

record Shipping =
  shipping_Address :: Address
  shipping_Method :: string

record MagentoOrder =
  order_EntityID :: int
  order_IncrementID :: string
  order_Status :: string
  order_ShippingAssignments :: "Shipping list"

record MagentoShipment =
  shipment_EntityID :: int
  shipment_IncrementID :: string
  shipment_OrderID :: int

record MagentoTrack =
  track_OrderID :: int
  track_ParentID :: int
  track_TrackNumber :: string
  track_Title :: string
  track_CarrierCode :: string

record MagentoShipmentResponse =
  shipments_Items :: "MagentoShipment list"
  shipments_Total :: int

record MagentoOrderResponse =
  orders_Items :: "MagentoOrder list"
  orders_Total :: int

text \<open>
  The standard-library functions the client calls are parameters: \<open>url.Values.Encode\<close>,
  the URL check of \<open>http.NewRequest\<close> (\<open>Some msg\<close> is its error), \<open>fmt.Sprintf("%d", _)\<close>,
  \<open>json.Marshal\<close> of the \<open>entity\<close> envelope and the JSON decoders of the three result types.
\<close>

record lib =
  encodeQuery :: "(string \<times> string) list \<Rightarrow> string"
  urlError :: "string \<Rightarrow> string option"
  formatInt :: "int \<Rightarrow> string"
  marshalEntity :: "MagentoTrack \<Rightarrow> error + string"
  decodeOrders :: "string \<Rightarrow> error + MagentoOrderResponse"
  decodeShipments :: "string \<Rightarrow> error + MagentoShipmentResponse"
  decodeAny :: "string \<Rightarrow> error + unit"

definition NewRequest :: "lib \<Rightarrow> string \<Rightarrow> string \<Rightarrow> string option \<Rightarrow> error + request" where
  "NewRequest L m u b =
     (case urlError L u of
        Some msg \<Rightarrow> Inl (LibError msg)
      | None \<Rightarrow> Inr \<lparr>req_method = m, req_url = u, req_header = [], req_body = b\<rparr>)"

definition Header_Set :: "string \<Rightarrow> string \<Rightarrow> request \<Rightarrow> request" where
  "Header_Set k v r = r\<lparr>req_header := AList.update k v (req_header r)\<rparr>"

text \<open>
  \<open>doRequest\<close>: the loop \<open>for attempts < c.maxRetries\<close>.  \<open>attempts\<close> counts up from 0.  On
  an out-of-range status with attempts left, a non-nil request body is replaced by a
  reader over \<open>body\<close>, the bytes just read from the response.
\<close>

function doRequest_loop ::
  "MagentoClient \<Rightarrow> env \<Rightarrow> (string \<Rightarrow> error + 'a) \<Rightarrow> request \<Rightarrow> nat \<Rightarrow> event list
     \<Rightarrow> (error + 'a) \<times> event list" where
  "doRequest_loop c env dec req attempts tr =
     (if int attempts < maxRetries c then
        (let attempts' = attempts + 1;
             out = env tr req;
             tr1 = tr @ [EvDo req out]
         in case out of
              TransportError e \<Rightarrow>
                if int attempts' < maxRetries c
                then doRequest_loop c env dec req attempts'
                       (tr1 @ [EvSleep (backoff c * of_nat attempts')])
                else (Inl (RequestFailed attempts' (LibError e)), tr1)
            | Response status body \<Rightarrow>
                if status < 200 \<or> status \<ge> 300 then
                  (if int attempts' < maxRetries c
                   then doRequest_loop c env dec
                          (if req_body req \<noteq> None then req\<lparr>req_body := Some body\<rparr> else req)
                          attempts'
                          (tr1 @ [EvSleep (backoff c * of_nat attempts')])
                   else (Inl (ApiError status body), tr1))
                else (dec body, tr1))
      else (Inl MaxRetriesExceeded, tr))"
  by pat_completeness auto
termination
  by (relation "measure (\<lambda>(c, env, dec, req, attempts, tr). nat (maxRetries c - int attempts))")
    auto

declare doRequest_loop.simps [simp del]

definition doRequest ::
  "MagentoClient \<Rightarrow> env \<Rightarrow> (string \<Rightarrow> error + 'a) \<Rightarrow> request \<Rightarrow> event list
     \<Rightarrow> (error + 'a) \<times> event list" where
  "doRequest c env dec req tr = doRequest_loop c env dec req 0 tr"

definition searchParams :: "string \<Rightarrow> string \<Rightarrow> (string \<times> string) list" where
  "searchParams fld val =
     [(''searchCriteria[filter_groups][0][filters][0][field]'', fld),
      (''searchCriteria[filter_groups][0][filters][0][value]'', val),
      (''searchCriteria[filter_groups][0][filters][0][condition_type]'', ''eq'')]"

definition authorize :: "MagentoClient \<Rightarrow> request \<Rightarrow> request" where
  "authorize c req =
     Header_Set ''Content-Type'' ''application/json''
       (Header_Set ''Authorization'' (''Bearer '' @ token c) req)"

definition GetOrderByIncrementID ::
  "MagentoClient \<Rightarrow> lib \<Rightarrow> env \<Rightarrow> string \<Rightarrow> event list \<Rightarrow> (error + MagentoOrder) \<times> event list" where
  "GetOrderByIncrementID c L env incrementID tr =
     (let endpoint = baseURL c @ ''/orders'';
          fullURL = endpoint @ ''?'' @ encodeQuery L (searchParams ''increment_id'' incrementID)
      in case NewRequest L ''GET'' fullURL None of
           Inl e \<Rightarrow> (Inl (Wrap ''failed to create request'' e), tr)
         | Inr req \<Rightarrow>
             (case doRequest c env (decodeOrders L) (authorize c req) tr of
                (Inl e, tr') \<Rightarrow> (Inl (Wrap ''failed to get order'' e), tr')
              | (Inr response, tr') \<Rightarrow>
                  if orders_Total response = 0 \<or> length (orders_Items response) = 0
                  then (Inl (OrderNotFound incrementID), tr')
                  else (Inr (orders_Items response ! 0), tr')))"

text \<open>\<open>Inr []\<close> is the source's \<open>nil, nil\<close>: no shipments, no error.\<close>

definition GetShipmentsByOrderID ::
  "MagentoClient \<Rightarrow> lib \<Rightarrow> env \<Rightarrow> int \<Rightarrow> event list
     \<Rightarrow> (error + MagentoShipment list) \<times> event list" where
  "GetShipmentsByOrderID c L env orderID tr =
     (let endpoint = baseURL c @ ''/shipments'';
          fullURL = endpoint @ ''?'' @ encodeQuery L (searchParams ''order_id'' (formatInt L orderID))
      in case NewRequest L ''GET'' fullURL None of
           Inl e \<Rightarrow> (Inl (Wrap ''failed to create request'' e), tr)
         | Inr req \<Rightarrow>
             (case doRequest c env (decodeShipments L) (authorize c req) tr of
                (Inl e, tr') \<Rightarrow> (Inl (Wrap ''failed to get shipments'' e), tr')
              | (Inr response, tr') \<Rightarrow>
                  if shipments_Total response = 0 \<or> length (shipments_Items response) = 0
                  then (Inr [], tr')
                  else (Inr (shipments_Items response), tr')))"

definition AddTrackingToShipment ::
  "MagentoClient \<Rightarrow> lib \<Rightarrow> env \<Rightarrow> int \<Rightarrow> MagentoTrack \<Rightarrow> event list
     \<Rightarrow> error option \<times> event list" where
  "AddTrackingToShipment c L env shipmentID track tr =
     (let track' = track\<lparr>track_ParentID := shipmentID\<rparr>;
          endpoint = baseURL c @ ''/shipment/track''
      in case marshalEntity L track' of
           Inl e \<Rightarrow> (Some (Wrap ''failed to marshal tracking data'' e), tr)
         | Inr body \<Rightarrow>
             (case NewRequest L ''POST'' endpoint (Some body) of
                Inl e \<Rightarrow> (Some (Wrap ''failed to create request'' e), tr)
              | Inr req \<Rightarrow>
                  (case doRequest c env (decodeAny L) (authorize c req) tr of
                     (Inl e, tr') \<Rightarrow> (Some (Wrap ''failed to add tracking'' e), tr')
                   | (Inr _, tr') \<Rightarrow> (None, tr'))))"


section \<open>IEEE binary64 arithmetic on non-negative values\<close>

text \<open>
  The file-level decision of the batch parser is taken in \<open>float64\<close>.  Only non-negative
  values arise (the operands are counters), so a value is a non-negative rational, \<open>+Inf\<close>
  or \<open>NaN\<close>.  Rounding is to nearest, ties to even, with 53 significant bits, gradual
  underflow below \<open>2^-1022\<close> and overflow to \<open>+Inf\<close> from \<open>2^1024\<close>.
\<close>

datatype float64 = Finite rat | PosInf | NaN

text \<open>Round to the nearest integer, ties to even.\<close>

definition rne :: "rat \<Rightarrow> int" where
  "rne x =
     (let f = \<lfloor>x\<rfloor>; d = x - of_int f
      in if d < 1 / 2 then f else if 1 / 2 < d then f + 1 else if even f then f else f + 1)"

text \<open>The binary exponent of a positive rational: \<open>2^k \<le> x < 2^(k+1)\<close>.\<close>

definition expo :: "rat \<Rightarrow> int" where
  "expo x =
     (if 1 \<le> x then int (floorlog 2 (nat \<lfloor>x\<rfloor>)) - 1
      else - int (ceillog2 (nat \<lceil>1 / x\<rceil>)))"

definition f64_round :: "rat \<Rightarrow> float64" where
  "f64_round x =
     (if x \<le> 0 then Finite 0
      else
        (let u = 2 powi (max (expo x) (- 1022) - 52);
             r = of_int (rne (x / u)) * u
         in if 2 ^ 1024 \<le> r then PosInf else Finite r))"

text \<open>\<open>float64(n)\<close> for a non-negative integer.\<close>

definition f64_of_nat :: "nat \<Rightarrow> float64" where
  "f64_of_nat n = f64_round (of_nat n)"

fun f64_div :: "float64 \<Rightarrow> float64 \<Rightarrow> float64" where
  "f64_div NaN _ = NaN"
| "f64_div _ NaN = NaN"
| "f64_div PosInf PosInf = NaN"
| "f64_div PosInf (Finite b) = PosInf"
| "f64_div (Finite a) PosInf = Finite 0"
| "f64_div (Finite a) (Finite b) =
     (if b = 0 then (if a = 0 then NaN else PosInf) else f64_round (a / b))"

text \<open>\<open><\<close> on floats: false as soon as one side is \<open>NaN\<close>.\<close>

fun f64_less :: "float64 \<Rightarrow> float64 \<Rightarrow> bool" where
  "f64_less NaN _ = False"
| "f64_less _ NaN = False"
| "f64_less PosInf _ = False"
| "f64_less (Finite a) PosInf = True"
| "f64_less (Finite a) (Finite b) = (a < b)"

text \<open>The constant \<open>0.05\<close> converted to \<open>float64\<close>.\<close>

definition errorThreshold :: float64 where
  "errorThreshold = f64_round (5 / 100)"


section \<open>Batch parser (package processor)\<close>

text \<open>A Go call either returns or panics; a panic is not recovered anywhere in the program.\<close>

datatype 'a exec = Panics | Returns 'a

text \<open>
  \<open>csv.Reader\<close> over an open file.  The file is the sequence of its records as the
  reader parses them: a record is either malformed (a parse or read error) or a list of
  fields.  With the default \<open>FieldsPerRecord = 0\<close> the first record fixes the number of
  fields, and a later record with another number of fields is returned with
  \<open>ErrFieldCount\<close>.
\<close>

datatype raw = Malformed | Fields "string list"

record reader =
  remaining :: "raw list"
  FieldsPerRecord :: nat

definition NewReader :: "raw list \<Rightarrow> reader" where
  "NewReader raws = \<lparr>remaining = raws, FieldsPerRecord = 0\<rparr>"

definition Read :: "reader \<Rightarrow> read_result \<times> reader" where
  "Read rd =
     (case remaining rd of
        [] \<Rightarrow> (EOF, rd)
      | Malformed # rest \<Rightarrow> (ReadError, rd\<lparr>remaining := rest\<rparr>)
      | Fields fs # rest \<Rightarrow>
          if FieldsPerRecord rd > 0
          then (if length fs \<noteq> FieldsPerRecord rd then ReadError else Record fs,
                rd\<lparr>remaining := rest\<rparr>)
          else (Record fs, rd\<lparr>remaining := rest, FieldsPerRecord := length fs\<rparr>))"

record columnIndices =
  orderNumber :: int
  trackingNumber :: int
  carrierCode :: int
  title :: int

text \<open>The \<open>switch col\<close> of \<open>getColumnIndices\<close>, and its \<open>range\<close> loop.\<close>

definition setColumn :: "columnIndices \<Rightarrow> int \<Rightarrow> string \<Rightarrow> columnIndices" where
  "setColumn indices i col =
     (if col = ''order_number'' then indices\<lparr>orderNumber := i\<rparr>
      else if col = ''tracking_number'' then indices\<lparr>trackingNumber := i\<rparr>
      else if col = ''carrier_code'' then indices\<lparr>carrierCode := i\<rparr>
      else if col = ''title'' then indices\<lparr>title := i\<rparr>
      else indices)"

fun columnLoop :: "string list \<Rightarrow> int \<Rightarrow> columnIndices \<Rightarrow> columnIndices" where
  "columnLoop [] i indices = indices"
| "columnLoop (col # cols) i indices = columnLoop cols (i + 1) (setColumn indices i col)"

definition getColumnIndices :: "string list \<Rightarrow> columnIndices" where
  "getColumnIndices header =
     columnLoop header 0
       \<lparr>orderNumber = - 1, trackingNumber = - 1, carrierCode = - 1, title = - 1\<rparr>"

text \<open>\<open>row[i]\<close> panics when \<open>i\<close> is out of range.\<close>

definition inRange :: "string list \<Rightarrow> int \<Rightarrow> bool" where
  "inRange row i = (0 \<le> i \<and> i < int (length row))"

definition processRow ::
  "MagentoClient \<Rightarrow> lib \<Rightarrow> env \<Rightarrow> string list \<Rightarrow> columnIndices \<Rightarrow> event list
     \<Rightarrow> error option exec \<times> event list" where
  "processRow c L env row indices tr =
     (if \<not> (inRange row (orderNumber indices) \<and> inRange row (trackingNumber indices)
             \<and> inRange row (carrierCode indices) \<and> inRange row (title indices))
      then (Panics, tr)
      else
        (let trackingInfo =
               \<lparr>OrderNumber = row ! nat (orderNumber indices),
                TrackingNumber = row ! nat (trackingNumber indices),
                CarrierCode = row ! nat (carrierCode indices),
                Title = row ! nat (title indices)\<rparr>
         in case Validate trackingInfo of
              Some e \<Rightarrow> (Returns (Some (Wrap ''invalid tracking info'' e)), tr)
            | None \<Rightarrow>
                (case GetOrderByIncrementID c L env (OrderNumber trackingInfo) tr of
                   (Inl e, tr1) \<Rightarrow> (Returns (Some (Wrap ''failed to get order'' e)), tr1)
                 | (Inr order, tr1) \<Rightarrow>
                     (case GetShipmentsByOrderID c L env (order_EntityID order) tr1 of
                        (Inl e, tr2) \<Rightarrow>
                          (Returns (Some (Wrap ''failed to get shipments'' e)), tr2)
                      | (Inr shipments, tr2) \<Rightarrow>
                          if length shipments = 0 then (Returns None, tr2)
                          else
                            (let shipment = shipments ! 0;
                                 track =
                                   \<lparr>track_OrderID = order_EntityID order,
                                    track_ParentID = 0,
                                    track_TrackNumber = TrackingNumber trackingInfo,
                                    track_Title = Title trackingInfo,
                                    track_CarrierCode = CarrierCode trackingInfo\<rparr>
                             in case AddTrackingToShipment c L env
                                       (shipment_EntityID shipment) track tr2 of
                                  (Some e, tr3) \<Rightarrow>
                                    (Returns (Some (Wrap ''failed to add tracking'' e)), tr3)
                                | (None, tr3) \<Rightarrow> (Returns None, tr3))))))"

text \<open>
  The row loop of \<open>processCSVFile\<close>, from the state after the header.  It returns
  \<open>(rowCount, errorCount)\<close>.  The counters are Go \<open>int\<close>s that only count up from 0.
\<close>

function rowLoop ::
  "MagentoClient \<Rightarrow> lib \<Rightarrow> env \<Rightarrow> columnIndices \<Rightarrow> reader \<Rightarrow> nat \<Rightarrow> nat \<Rightarrow> event list
     \<Rightarrow> (nat \<times> nat) exec \<times> event list" where
  "rowLoop c L env indices rd rowCount errorCount tr =
     (case Read rd of
        (EOF, rd') \<Rightarrow> (Returns (rowCount, errorCount), tr @ [EvRead EOF])
      | (ReadError, rd') \<Rightarrow>
          rowLoop c L env indices rd' rowCount (errorCount + 1) (tr @ [EvRead ReadError])
      | (Record row, rd') \<Rightarrow>
          (case processRow c L env row indices (tr @ [EvRead (Record row)]) of
             (Panics, tr') \<Rightarrow> (Panics, tr')
           | (Returns (Some e), tr') \<Rightarrow>
               rowLoop c L env indices rd' (rowCount + 1) (errorCount + 1) tr'
           | (Returns None, tr') \<Rightarrow>
               rowLoop c L env indices rd' (rowCount + 1) errorCount tr'))"
  by pat_completeness auto
termination
proof (relation "measure (\<lambda>(c, L, env, indices, rd, rowCount, errorCount, tr). length (remaining rd))")
qed (auto simp: Read_def split: list.splits raw.splits if_splits)

declare rowLoop.simps [simp del]

text \<open>The return expression of \<open>processCSVFile\<close>.\<close>

definition fileSuccess :: "nat \<Rightarrow> nat \<Rightarrow> bool" where
  "fileSuccess errorCount rowCount =
     (errorCount = 0
      \<or> f64_less (f64_div (f64_of_nat errorCount) (f64_of_nat rowCount)) errorThreshold)"

text \<open>\<open>file\<close> is \<open>None\<close> when \<open>os.Open\<close> fails.\<close>

definition processCSVFile ::
  "MagentoClient \<Rightarrow> lib \<Rightarrow> env \<Rightarrow> raw list option \<Rightarrow> event list \<Rightarrow> bool exec \<times> event list" where
  "processCSVFile c L env file tr =
     (case file of
        None \<Rightarrow> (Returns False, tr)
      | Some raws \<Rightarrow>
          (case Read (NewReader raws) of
             (Record header, rd) \<Rightarrow>
               (let indices = getColumnIndices header;
                    tr1 = tr @ [EvRead (Record header)]
                in if orderNumber indices = - 1 \<or> trackingNumber indices = - 1
                      \<or> carrierCode indices = - 1 \<or> title indices = - 1
                   then (Returns False, tr1)
                   else
                     (case rowLoop c L env indices rd 0 0 tr1 of
                        (Panics, tr') \<Rightarrow> (Panics, tr')
                      | (Returns (rowCount, errorCount), tr') \<Rightarrow>
                          (Returns (fileSuccess errorCount rowCount), tr')))
           | (res, rd) \<Rightarrow> (Returns False, tr @ [EvRead res])))"


section \<open>Dispatch queue (\<open>CSVProcessor.ProcessFile\<close>)\<close>

text \<open>
  The buffered channel \<open>workChan\<close> is represented by everything sent on it so far and the
  number of values already received; its buffer holds the values in between.  A send
  panics on a closed channel and waits while the buffer is full.
\<close>

record chan =
  sent :: "string list"
  received :: nat
  closed :: bool
  capacity :: nat

datatype 'a step = Panic | Blocked | Done 'a

definition chanSend :: "chan \<Rightarrow> string \<Rightarrow> chan step" where
  "chanSend ch v =
     (if closed ch then Panic
      else if capacity ch \<le> length (sent ch) - received ch then Blocked
      else Done (ch\<lparr>sent := sent ch @ [v]\<rparr>))"

text \<open>A worker's receive (\<open>for filePath := range p.workChan\<close>); on a closed and drained
  channel the loop ends.\<close>

definition chanRecv :: "chan \<Rightarrow> chan step" where
  "chanRecv ch =
     (if received ch < length (sent ch) then Done (ch\<lparr>received := received ch + 1\<rparr>)
      else if closed ch then Done ch
      else Blocked)"

definition chanClose :: "chan \<Rightarrow> chan step" where
  "chanClose ch = (if closed ch then Panic else Done (ch\<lparr>closed := True\<rparr>))"

record CSVProcessor =
  processedFiles :: "string \<rightharpoonup> bool"
  workChan :: chan

definition NewCSVProcessor :: CSVProcessor where
  "NewCSVProcessor =
     \<lparr>processedFiles = Map.empty,
      workChan = \<lparr>sent = [], received = 0, closed = False, capacity = 100\<rparr>\<rparr>"

text \<open>Indexing a Go \<open>map[string]bool\<close>: an absent key reads as \<open>false\<close>.\<close>

definition mapIndex :: "(string \<rightharpoonup> bool) \<Rightarrow> string \<Rightarrow> bool" where
  "mapIndex m k = (case m k of None \<Rightarrow> False | Some b \<Rightarrow> b)"

text \<open>
  \<open>ProcessFile\<close> runs under the mutex, so it is one atomic step of the processor; a send
  that has to wait completes, still under the mutex, once a worker has received.
\<close>

definition ProcessFile :: "string \<Rightarrow> CSVProcessor \<Rightarrow> CSVProcessor step" where
  "ProcessFile filePath p =
     (if mapIndex (processedFiles p) filePath then Done p
      else
        (let p1 = p\<lparr>processedFiles := (processedFiles p)(filePath \<mapsto> True)\<rparr>
         in case chanSend (workChan p1) filePath of
              Panic \<Rightarrow> Panic
            | Blocked \<Rightarrow> Blocked
            | Done ch \<Rightarrow> Done (p1\<lparr>workChan := ch\<rparr>)))"

text \<open>One process lifetime: submissions by the watcher, receives by the workers, and the
  \<open>close(p.workChan)\<close> of \<open>Stop\<close>, in the order in which they take effect.\<close>

datatype action = Submit string | Receive | Close

fun act :: "action \<Rightarrow> CSVProcessor \<Rightarrow> CSVProcessor step" where
  "act (Submit filePath) p = ProcessFile filePath p"
| "act Receive p =
     (case chanRecv (workChan p) of
        Panic \<Rightarrow> Panic | Blocked \<Rightarrow> Blocked | Done ch \<Rightarrow> Done (p\<lparr>workChan := ch\<rparr>))"
| "act Close p =
     (case chanClose (workChan p) of
        Panic \<Rightarrow> Panic | Blocked \<Rightarrow> Blocked | Done ch \<Rightarrow> Done (p\<lparr>workChan := ch\<rparr>))"

fun run :: "action list \<Rightarrow> CSVProcessor \<Rightarrow> CSVProcessor step" where
  "run [] p = Done p"
| "run (a # as) p =
     (case act a p of Panic \<Rightarrow> Panic | Blocked \<Rightarrow> Blocked | Done p' \<Rightarrow> run as p')"

section \<open>Directory watcher (package file)\<close>

record FileInfo =
  Size :: int
  ModTime :: int
  IsDir :: bool

text \<open>
  The watcher's interactions: \<open>os.Stat\<close> (\<open>None\<close> is an error), \<open>time.Sleep\<close>,
  \<open>filepath.Glob\<close> (\<open>None\<close> is an error) and the call \<open>w.processor.ProcessFile(path)\<close>.
  The file system answers in view of the history, so files may change at any moment.
  \<open>filepath.Join\<close> is a parameter as well.
\<close>

datatype fs_event =
    FsStat string "FileInfo option"
  | FsSleep duration
  | FsGlob string "string list option"
  | FsSubmit string

record os =
  statOracle :: "fs_event list \<Rightarrow> string \<Rightarrow> FileInfo option"
  globOracle :: "fs_event list \<Rightarrow> string \<Rightarrow> string list option"
  joinPath :: "string \<Rightarrow> string \<Rightarrow> string"

text \<open>The watcher's configuration; \<open>filePattern\<close> is \<open>MatchString\<close> of the compiled regexp.\<close>

record Watcher =
  Directory :: string
  filePattern :: "string \<Rightarrow> bool"

text \<open>\<open>fsnotify.Event\<close>; \<open>Op\<close> is a bit set with \<open>Create = 1\<close> and \<open>Write = 2\<close>.\<close>

record Event =
  Name :: string
  Op :: "32 word"

definition Create :: "32 word" where "Create = 1"
definition Write :: "32 word" where "Write = 2"

text \<open>\<open>filepath.Base\<close> with separator \<open>/\<close>.\<close>

definition Base :: "string \<Rightarrow> string" where
  "Base path =
     (if path = [] then ''.''
      else
        (let stripped = rev (dropWhile (\<lambda>ch. ch = CHR ''/'') (rev path));
             elem = rev (takeWhile (\<lambda>ch. ch \<noteq> CHR ''/'') (rev stripped))
         in if elem = [] then ''/'' else elem))"

definition isTargetFile :: "Watcher \<Rightarrow> os \<Rightarrow> string \<Rightarrow> fs_event list \<Rightarrow> bool \<times> fs_event list" where
  "isTargetFile w env path tr =
     (let r = statOracle env tr path; tr1 = tr @ [FsStat path r]
      in case r of
           None \<Rightarrow> (False, tr1)
         | Some fileInfo \<Rightarrow>
             if IsDir fileInfo then (False, tr1)
             else (filePattern w (Base path), tr1))"

definition second :: duration where "second = 1000000000"
definition millisecond :: duration where "millisecond = 1000000"

definition isFileReady :: "os \<Rightarrow> string \<Rightarrow> fs_event list \<Rightarrow> bool \<times> fs_event list" where
  "isFileReady env path tr =
     (let r1 = statOracle env tr path; tr1 = tr @ [FsStat path r1]
      in case r1 of
           None \<Rightarrow> (False, tr1)
         | Some initialInfo \<Rightarrow>
             (let tr2 = tr1 @ [FsSleep (1 * second)];
                  r2 = statOracle env tr2 path;
                  tr3 = tr2 @ [FsStat path r2]
              in case r2 of
                   None \<Rightarrow> (False, tr3)
                 | Some currentInfo \<Rightarrow>
                     (Size initialInfo = Size currentInfo
                        \<and> ModTime initialInfo = ModTime currentInfo, tr3)))"

definition handleEvent :: "Watcher \<Rightarrow> os \<Rightarrow> Event \<Rightarrow> fs_event list \<Rightarrow> fs_event list" where
  "handleEvent w env event tr =
     (if Op event AND (Create OR Write) = 0 then tr
      else
        (case isTargetFile w env (Name event) tr of
           (False, tr1) \<Rightarrow> tr1
         | (True, tr1) \<Rightarrow>
             (case isFileReady env (Name event) (tr1 @ [FsSleep (500 * millisecond)]) of
                (False, tr2) \<Rightarrow> tr2
              | (True, tr2) \<Rightarrow> tr2 @ [FsSubmit (Name event)])))"

text \<open>The \<open>range files\<close> loop of \<open>processExistingFiles\<close>; \<open>&&\<close> evaluates its right
  operand only when the left one holds.\<close>

fun sweepLoop :: "Watcher \<Rightarrow> os \<Rightarrow> string list \<Rightarrow> fs_event list \<Rightarrow> fs_event list" where
  "sweepLoop w env [] tr = tr"
| "sweepLoop w env (file # files) tr =
     (case isTargetFile w env file tr of
        (False, tr1) \<Rightarrow> sweepLoop w env files tr1
      | (True, tr1) \<Rightarrow>
          (case isFileReady env file tr1 of
             (False, tr2) \<Rightarrow> sweepLoop w env files tr2
           | (True, tr2) \<Rightarrow> sweepLoop w env files (tr2 @ [FsSubmit file])))"

definition processExistingFiles :: "Watcher \<Rightarrow> os \<Rightarrow> fs_event list \<Rightarrow> fs_event list" where
  "processExistingFiles w env tr =
     (let pat = joinPath env (Directory w) ''*.csv'';
          r = globOracle env tr pat;
          tr1 = tr @ [FsGlob pat r]
      in case r of
           None \<Rightarrow> tr1
         | Some files \<Rightarrow> sweepLoop w env files tr1)"

text \<open>The paths handed to the processor in a trace.\<close>

fun submitted :: "fs_event list \<Rightarrow> string list" where
  "submitted [] = []"
| "submitted (FsSubmit path # tr) = path # submitted tr"
| "submitted (_ # tr) = submitted tr"

text \<open>
  A file system at rest, for the examples: a directory \<open>dir\<close> with the given entries.  A
  path is the directory, a slash and the name; \<open>Glob\<close> of \<open>dir/*.csv\<close> lists the entries
  whose name ends in \<open>.csv\<close>.
\<close>

definition quietFs :: "string \<Rightarrow> (string \<times> FileInfo) list \<Rightarrow> os" where
  "quietFs dir entries =
     \<lparr>statOracle = (\<lambda>h path. map_of (map (\<lambda>(n, fi). (dir @ ''/'' @ n, fi)) entries) path),
      globOracle = (\<lambda>h pat.
         if pat = dir @ ''/*.csv''
         then Some (map (\<lambda>(n, fi). dir @ ''/'' @ n) (filter (\<lambda>(n, fi). suffix ''.csv'' n) entries))
         else Some []),
      joinPath = (\<lambda>d n. d @ ''/'' @ n)\<rparr>"

section \<open>Vocabulary of the properties\<close>

text \<open>
  An attempt fails when the transport errors or the status is outside 200..299.  The
  attempts of a trace are its requests with their outcomes.  \<open>interleave b i\<close> is the
  schedule of the specification: attempt, sleep \<open>b * i\<close>, attempt, sleep \<open>b * (i + 1)\<close>,
  and so on, ending with an attempt.  \<open>exhausted\<close> is the error after the last failure.
\<close>

fun failed :: "outcome \<Rightarrow> bool" where
  "failed (TransportError e) = True"
| "failed (Response status body) = (status < 200 \<or> status \<ge> 300)"

fun responseBody :: "outcome \<Rightarrow> string" where
  "responseBody (Response status body) = body"
| "responseBody (TransportError e) = []"

fun attemptsOf :: "event list \<Rightarrow> (request \<times> outcome) list" where
  "attemptsOf [] = []"
| "attemptsOf (EvDo r out # tr) = (r, out) # attemptsOf tr"
| "attemptsOf (_ # tr) = attemptsOf tr"

fun interleave :: "duration \<Rightarrow> nat \<Rightarrow> (request \<times> outcome) list \<Rightarrow> event list" where
  "interleave b i [] = []"
| "interleave b i [(r, out)] = [EvDo r out]"
| "interleave b i ((r, out) # att # atts) =
     EvDo r out # EvSleep (b * of_nat i) # interleave b (i + 1) (att # atts)"

definition exhausted :: "nat \<Rightarrow> outcome list \<Rightarrow> error" where
  "exhausted n outs =
     (if outs = [] then MaxRetriesExceeded
      else case last outs of
             TransportError e \<Rightarrow> RequestFailed n (LibError e)
           | Response status body \<Rightarrow> ApiError status body)"

definition retried ::
  "MagentoClient \<Rightarrow> (string \<Rightarrow> error + 'a) \<Rightarrow> nat \<Rightarrow> (request \<times> outcome) list \<Rightarrow> (error + 'a) \<Rightarrow> bool" where
  "retried c dec a atts res \<longleftrightarrow>
     (\<forall>x \<in> set (butlast atts). failed (snd x))
     \<and> (int a < maxRetries c \<longrightarrow> atts \<noteq> [])
     \<and> (if atts \<noteq> [] \<and> \<not> failed (snd (last atts))
        then res = dec (responseBody (snd (last atts)))
        else int (a + length atts) = max (int a) (maxRetries c)
             \<and> res = Inl (exhausted (a + length atts) (map snd atts)))"

text \<open>The ledger and the channel agree: a path has been sent once if the ledger holds it,
  and never otherwise.\<close>

definition ledgerMatches :: "CSVProcessor \<Rightarrow> bool" where
  "ledgerMatches p \<longleftrightarrow>
     (\<forall>f. count_list (sent (workChan p)) f = (if mapIndex (processedFiles p) f then 1 else 0))"

text \<open>
  A file is stable at a point of the trace when two looks at it, one second apart, both
  succeed and show the same size and modification time.  \<open>regularMatch\<close>: the path leads
  to something that is not a directory, and its base name matches the pattern.
\<close>

definition stableFile :: "os \<Rightarrow> string \<Rightarrow> fs_event list \<Rightarrow> bool" where
  "stableFile env path tr =
     (case statOracle env tr path of
        None \<Rightarrow> False
      | Some first \<Rightarrow>
          (case statOracle env (tr @ [FsStat path (Some first), FsSleep second]) path of
             None \<Rightarrow> False
           | Some later \<Rightarrow> Size first = Size later \<and> ModTime first = ModTime later))"

definition regularMatch :: "Watcher \<Rightarrow> (string \<Rightarrow> FileInfo option) \<Rightarrow> string \<Rightarrow> bool" where
  "regularMatch w st path =
     (case st path of None \<Rightarrow> False | Some fi \<Rightarrow> \<not> IsDir fi \<and> filePattern w (Base path))"

text \<open>
  The batch parser: the required column names; a record that reads as a row (well formed,
  with as many fields as the header); indices that lie within a row; the record built from
  a row and the track built from an order and a record; the tracking updates (\<open>POST\<close>
  requests) of a trace; and how \<open>processRow\<close> passes on the result of the update.
\<close>

definition required :: "string list" where
  "required = [''order_number'', ''tracking_number'', ''carrier_code'', ''title'']"

definition readable :: "nat \<Rightarrow> raw \<Rightarrow> bool" where
  "readable n x = (case x of Malformed \<Rightarrow> False | Fields fs \<Rightarrow> length fs = n)"

definition indicesWithin :: "columnIndices \<Rightarrow> nat \<Rightarrow> bool" where
  "indicesWithin indices n \<longleftrightarrow>
     0 \<le> orderNumber indices \<and> orderNumber indices < int n
     \<and> 0 \<le> trackingNumber indices \<and> trackingNumber indices < int n
     \<and> 0 \<le> carrierCode indices \<and> carrierCode indices < int n
     \<and> 0 \<le> title indices \<and> title indices < int n"

definition rowInfo :: "string list \<Rightarrow> columnIndices \<Rightarrow> TrackingInfo" where
  "rowInfo row indices =
     \<lparr>OrderNumber = row ! nat (orderNumber indices),
      TrackingNumber = row ! nat (trackingNumber indices),
      CarrierCode = row ! nat (carrierCode indices),
      Title = row ! nat (title indices)\<rparr>"

definition trackOf :: "MagentoOrder \<Rightarrow> TrackingInfo \<Rightarrow> MagentoTrack" where
  "trackOf order info =
     \<lparr>track_OrderID = order_EntityID order, track_ParentID = 0,
      track_TrackNumber = TrackingNumber info, track_Title = Title info,
      track_CarrierCode = CarrierCode info\<rparr>"


definition rowResult :: "error option \<times> event list \<Rightarrow> error option exec \<times> event list" where
  "rowResult r =
     (case r of
        (Some e, tr) \<Rightarrow> (Returns (Some (Wrap ''failed to add tracking'' e)), tr)
      | (None, tr) \<Rightarrow> (Returns None, tr))"


section \<open>Example inputs\<close>

definition exampleClient :: MagentoClient where
  "exampleClient = \<lparr>baseURL = ''https://shop.test/rest/V1'', token = ''secret'', maxRetries = 3, backoff = second\<rparr>"

definition exampleRequest :: request where
  "exampleRequest =
     \<lparr>req_method = ''POST'', req_url = ''https://shop.test/rest/V1/shipment/track'',
      req_header = [], req_body = Some ''entity-1''\<rparr>"

definition envDown :: env where
  "envDown h r = TransportError ''connection refused''"

definition envFlaky :: env where
  "envFlaky h r = (if attemptsOf h = [] then Response 500 ''busy'' else Response 200 ''done'')"

definition decodeUnit :: "string \<Rightarrow> error + unit" where
  "decodeUnit body = Inr ()"

definition growingFs :: os where
  "growingFs =
     \<lparr>statOracle = (\<lambda>h path. Some \<lparr>Size = int (length h), ModTime = int (length h), IsDir = False\<rparr>),
      globOracle = (\<lambda>h pat. Some []),
      joinPath = (\<lambda>d n. d @ ''/'' @ n)\<rparr>"

definition csvWatcher :: Watcher where
  "csvWatcher = \<lparr>Directory = ''in'', filePattern = (\<lambda>n. suffix ''.csv'' n)\<rparr>"

definition txtWatcher :: Watcher where
  "txtWatcher = \<lparr>Directory = ''in'', filePattern = (\<lambda>n. n = ''orders.txt'')\<rparr>"

definition exampleFs :: os where
  "exampleFs =
     quietFs ''in''
       [(''a.csv'', \<lparr>Size = 10, ModTime = 5, IsDir = False\<rparr>),
        (''orders.txt'', \<lparr>Size = 20, ModTime = 6, IsDir = False\<rparr>),
        (''old.csv'', \<lparr>Size = 0, ModTime = 1, IsDir = True\<rparr>)]"

definition exampleOrder :: MagentoOrder where
  "exampleOrder =
     \<lparr>order_EntityID = 7, order_IncrementID = ''1001'', order_Status = ''processing'',
      order_ShippingAssignments = []\<rparr>"

definition exampleShipments :: "MagentoShipment list" where
  "exampleShipments =
     [\<lparr>shipment_EntityID = 21, shipment_IncrementID = ''S21'', shipment_OrderID = 7\<rparr>,
      \<lparr>shipment_EntityID = 22, shipment_IncrementID = ''S22'', shipment_OrderID = 7\<rparr>]"

definition exampleLib :: lib where
  "exampleLib =
     \<lparr>encodeQuery = (\<lambda>ps. concat (map (\<lambda>(k, v). v @ ''&'') ps)),
      urlError = (\<lambda>u. None),
      formatInt = (\<lambda>i. if i = 7 then ''7'' else ''?''),
      marshalEntity = (\<lambda>t. Inr (if track_ParentID t = 21 then ''parent-21'' else ''parent-other'')),
      decodeOrders = (\<lambda>b.
        if b = ''one-order'' then Inr \<lparr>orders_Items = [exampleOrder], orders_Total = 1\<rparr>
        else if b = ''no-order'' then Inr \<lparr>orders_Items = [], orders_Total = 0\<rparr>
        else Inl (LibError ''bad json'')),
      decodeShipments = (\<lambda>b.
        if b = ''two-shipments'' then Inr \<lparr>shipments_Items = exampleShipments, shipments_Total = 2\<rparr>
        else if b = ''no-shipments'' then Inr \<lparr>shipments_Items = [], shipments_Total = 0\<rparr>
        else Inl (LibError ''bad json'')),
      decodeAny = (\<lambda>b. Inr ())\<rparr>"

text \<open>A service with the example order; \<open>shipments\<close> is its answer to the shipment lookup.\<close>

definition envShop :: "string \<Rightarrow> env" where
  "envShop shipments h r =
     (if req_method r = ''POST'' then Response 200 ''ok''
      else if prefix ''https://shop.test/rest/V1/orders'' (req_url r) then Response 200 ''one-order''
      else Response 200 shipments)"

definition exampleHeader :: "string list" where
  "exampleHeader = [''order_number'', ''tracking_number'', ''carrier_code'', ''title'']"


definition blankRow :: "string list" where
  "blankRow = ['' '', ''1Z999'', ''ups'', ''UPS'']"


section \<open>Properties of the binary64 model\<close>

lemma floor_rat_numeral: "\<lfloor>numeral a / numeral b :: rat\<rfloor> = numeral a div numeral b"
  using floor_divide_of_int_eq [of "numeral a" "numeral b", where ?'a = rat] by simp

lemma ceiling_rat_numeral: "\<lceil>numeral a / numeral b :: rat\<rceil> = - ((- numeral a) div numeral b)"
  using ceiling_divide_eq_div [of "numeral a" "numeral b", where ?'a = rat] by simp

lemma errorThreshold_value: "errorThreshold = Finite (7205759403792794 / 2^57)"
  by (simp add: errorThreshold_def f64_round_def expo_def rne_def Let_def ceillog2_code ceillog2_aux.simps
     floor_rat_numeral ceiling_rat_numeral)

lemma expo_bounds:
  assumes "0 < x"
  shows "2 powi expo x \<le> x \<and> x < 2 powi (expo x + 1)"
proof (cases "1 \<le> x")
  case True
  define n where "n = nat \<lfloor>x\<rfloor>"
  have n1: "1 \<le> n" using True by (simp add: n_def le_nat_iff)
  have nx: "of_nat n \<le> x" "x < of_nat n + 1"
    using True by (simp_all add: n_def) linarith+
  from floorlog_bounds [of n 2] n1
  have b: "2 ^ (floorlog 2 n - 1) \<le> n" "n < 2 ^ floorlog 2 n" by auto
  have fpos: "1 \<le> floorlog 2 n" using n1 by (simp add: compute_floorlog)
  have e: "expo x = int (floorlog 2 n - 1)" using True fpos by (simp add: expo_def n_def)
  have e1: "expo x + 1 = int (floorlog 2 n)" using e fpos by simp
  have "(of_nat (2 ^ (floorlog 2 n - 1)) :: rat) \<le> of_nat n"
    using b(1) by (rule of_nat_mono)
  then have "(2::rat) ^ (floorlog 2 n - 1) \<le> of_nat n" by simp
  from this nx(1) have "(2::rat) ^ (floorlog 2 n - 1) \<le> x" by (rule order_trans)
  then have lo: "2 powi expo x \<le> x" unfolding e by simp
  have "n + 1 \<le> 2 ^ floorlog 2 n" using b(2) by simp
  then have "(of_nat (n + 1) :: rat) \<le> of_nat (2 ^ floorlog 2 n)"
    by (rule of_nat_mono)
  then have "(of_nat n :: rat) + 1 \<le> 2 ^ floorlog 2 n" by simp
  with nx(2) have "x < 2 ^ floorlog 2 n" by (rule less_le_trans)
  then have hi: "x < 2 powi (expo x + 1)" unfolding e1 by simp
  from lo hi show ?thesis ..
next
  case False
  define y where "y = 1 / x"
  define n where "n = nat \<lceil>y\<rceil>"
  define m where "m = ceillog2 n"
  have y1: "1 < y" using False assms by (simp add: y_def)
  have xy: "x = 1 / y" by (simp add: y_def)
  have cy: "2 \<le> \<lceil>y\<rceil>" using y1 by (simp add: le_ceiling_iff) 
  have n2: "2 \<le> n" using cy by (simp add: n_def le_nat_iff)
  have yn: "y \<le> of_nat n" "of_nat n < y + 1"
    using cy by (simp_all add: n_def le_of_int_ceiling) linarith+
  have e: "expo x = - int m" using False by (simp add: expo_def m_def n_def y_def)
  have "n \<le> 2 ^ m" unfolding m_def by (rule le_two_power_ceillog2)
  then have "(of_nat n :: rat) \<le> of_nat (2 ^ m)" by (rule of_nat_mono)
  then have "(of_nat n :: rat) \<le> 2 ^ m" by simp
  with yn(1) have "y \<le> 2 ^ m" by (rule order_trans)
  then have "1 / 2 ^ m \<le> 1 / y" using y1 by (simp add: frac_le)
  then have "1 / 2 ^ m \<le> x" by (simp only: xy)
  then have lo: "2 powi expo x \<le> x" by (simp add: e power_int_minus_divide)
  have mpos: "1 \<le> m" using n2 unfolding m_def by (simp add: ceillog2_ge_iff)
  from two_power_ceillog2_gt [of n] n2 have "2 ^ m < 2 * n" by (simp add: m_def)
  then have "2 * 2 ^ (m - 1) < 2 * n" using mpos by (cases m) simp_all
  then have "2 ^ (m - 1) + 1 \<le> n" by simp
  then have "(of_nat (2 ^ (m - 1) + 1) :: rat) \<le> of_nat n" by (rule of_nat_mono)
  then have "(2::rat) ^ (m - 1) + 1 \<le> of_nat n" by simp
  with yn(2) have "2 ^ (m - 1) < y" by linarith
  then have "1 / y < 1 / 2 ^ (m - 1)" by (simp add: frac_less2)
  then have "x < 1 / 2 ^ (m - 1)" by (simp only: xy)
  moreover have "expo x + 1 = - int (m - 1)" using e mpos by simp
  ultimately have hi: "x < 2 powi (expo x + 1)"
    by (simp add: power_int_minus_divide)
  from lo hi show ?thesis ..
qed

lemma expo_eqI:
  assumes "2 powi k \<le> x" "x < 2 powi (k + 1)"
  shows "expo x = k"
proof -
  have "0 < (2::rat) powi k" by simp
  then have x0: "0 < x" using assms(1) by linarith
  note b = expo_bounds [OF x0]
  have "(2::rat) powi k < 2 powi (expo x + 1)" using assms(1) b by linarith
  then have 1: "k < expo x + 1"
    by (metis linorder_not_le power_int_increasing one_le_numeral)
  have "(2::rat) powi expo x < 2 powi (k + 1)" using assms(2) b by linarith
  then have 2: "expo x < k + 1"
    by (metis linorder_not_le power_int_increasing one_le_numeral)
  from 1 2 show ?thesis by simp
qed


lemma rne_of_int: "rne (of_int n) = n"
  by (simp add: rne_def)

lemma rne_cases: "rne x = \<lfloor>x\<rfloor> \<or> rne x = \<lfloor>x\<rfloor> + 1"
  by (simp add: rne_def Let_def)

lemma rne_lower: "of_int a \<le> x \<Longrightarrow> a \<le> rne x"
proof -
  assume "of_int a \<le> x"
  then have "a \<le> \<lfloor>x\<rfloor>" by (simp add: le_floor_iff)
  with rne_cases [of x] show ?thesis by auto
qed

lemma rne_upper: "x \<le> of_int b \<Longrightarrow> rne x \<le> b"
proof (cases "x = of_int b")
  case True
  then show ?thesis by (simp add: rne_of_int)
next
  case False
  assume "x \<le> of_int b"
  with False have "x < of_int b" by simp
  then have "\<lfloor>x\<rfloor> < b" by (simp add: floor_less_iff)
  with rne_cases [of x] show ?thesis by auto
qed

lemma rne_less_even:
  assumes "even n"
  shows "rne x < n \<longleftrightarrow> x < of_int n - 1 / 2"
proof
  assume l: "rne x < n"
  show "x < of_int n - 1 / 2"
  proof (rule ccontr)
    assume "\<not> x < of_int n - 1 / 2"
    then have ge: "of_int n - 1 / 2 \<le> x" by simp
    then have "of_int (n - 1) \<le> x" by simp
    then have f1: "n - 1 \<le> \<lfloor>x\<rfloor>" by (simp only: le_floor_iff)
    from l rne_cases [of x] have "\<lfloor>x\<rfloor> < n" by auto
    with f1 have f: "\<lfloor>x\<rfloor> = n - 1" by simp
    then have odd: "odd \<lfloor>x\<rfloor>" using assms by simp
    have d: "1 / 2 \<le> x - of_int \<lfloor>x\<rfloor>" using ge f by simp
    have "rne x = n" using d odd f by (auto simp: rne_def Let_def)
    with l show False by simp
  qed
next
  assume r: "x < of_int n - 1 / 2"
  then have "x < of_int n" by simp
  then have f1: "\<lfloor>x\<rfloor> \<le> n - 1" by (simp add: floor_less_iff)
  show "rne x < n"
  proof (cases "\<lfloor>x\<rfloor> = n - 1")
    case True
    then have "x - of_int \<lfloor>x\<rfloor> < 1 / 2" using r by simp
    then have "rne x = \<lfloor>x\<rfloor>" by (simp add: rne_def Let_def)
    with True show ?thesis by simp
  next
    case False
    with f1 have "\<lfloor>x\<rfloor> + 1 < n" by simp
    with rne_cases [of x] show ?thesis by auto
  qed
qed

lemma f64_round_normal:
  assumes "2 powi k \<le> x" "x < 2 powi (k + 1)" "- 1022 \<le> k" "k < 1023"
  shows "f64_round x = Finite (of_int (rne (x / 2 powi (k - 52))) * 2 powi (k - 52))"
    and "2 ^ 52 \<le> rne (x / 2 powi (k - 52))"
    and "rne (x / 2 powi (k - 52)) \<le> 2 ^ 53"
proof -
  define u :: rat where "u = 2 powi (k - 52)"
  define m where "m = rne (x / u)"
  have u0: "0 < u" by (simp add: u_def)
  have "0 < (2::rat) powi k" by simp
  then have x0: "0 < x" using assms(1) by linarith
  have e: "expo x = k" using assms(1,2) by (rule expo_eqI)
  have pk: "(2::rat) powi k = 2 ^ 52 * u"
    using power_int_add [of "2::rat" 52 "k - 52"] by (simp add: u_def)
  have pk1: "(2::rat) powi (k + 1) = 2 ^ 53 * u"
    using power_int_add [of "2::rat" 53 "k - 52"] by (simp add: u_def add.commute)
  have lo: "of_int (2 ^ 52) \<le> x / u"
    using assms(1) u0 by (simp add: pk pos_le_divide_eq)
  have hi: "x / u \<le> of_int (2 ^ 53)"
    using assms(2) u0 by (simp add: pk1 pos_divide_le_eq)
  from lo have m_lo: "2 ^ 52 \<le> m" unfolding m_def by (rule rne_lower)
  from hi have m_hi: "m \<le> 2 ^ 53" unfolding m_def by (rule rne_upper)
  have "(of_int m :: rat) \<le> of_int (2 ^ 53)" using m_hi by (simp only: of_int_le_iff)
  then have "of_int m * u \<le> 2 ^ 53 * u" using u0 by simp
  also have "\<dots> = 2 powi (k + 1)" by (simp add: pk1)
  also have "\<dots> \<le> 2 powi 1023" using assms(4) by (intro power_int_increasing) simp_all
  also have "\<dots> < 2 ^ 1024" by simp
  finally have fin: "\<not> 2 ^ 1024 \<le> of_int m * u" by simp
  have "max k (- 1022) = k" using assms(3) by simp
  then have "f64_round x = Finite (of_int m * u)"
    using x0 fin by (simp add: f64_round_def e Let_def m_def u_def)
  then show "f64_round x = Finite (of_int (rne (x / 2 powi (k - 52))) * 2 powi (k - 52))"
    by (simp add: m_def u_def)
  show "2 ^ 52 \<le> rne (x / 2 powi (k - 52))" using m_lo by (simp add: m_def u_def)
  show "rne (x / 2 powi (k - 52)) \<le> 2 ^ 53" using m_hi by (simp add: m_def u_def)
qed

lemma f64_round_integral:
  assumes "2 powi k \<le> x" "x < 2 powi (k + 1)" "- 1022 \<le> k" "k < 1023"
    and "x / 2 powi (k - 52) = of_int j"
  shows "f64_round x = Finite x"
proof -
  have "f64_round x = Finite (of_int (rne (x / 2 powi (k - 52))) * 2 powi (k - 52))"
    using assms(1-4) by (rule f64_round_normal)
  also have "rne (x / 2 powi (k - 52)) = j" by (simp only: assms(5) rne_of_int)
  also have "of_int j * 2 powi (k - 52) = x"
    using assms(5) by (simp add: field_simps)
  finally show ?thesis .
qed

lemma f64_of_nat_exact:
  assumes "n \<le> 2 ^ 53"
  shows "f64_of_nat n = Finite (of_nat n)"
proof (cases "n = 0")
  case True
  then show ?thesis by (simp add: f64_of_nat_def f64_round_def)
next
  case False
  define x :: rat where "x = of_nat n"
  define k where "k = expo x"
  have x1: "1 \<le> x" using False by (simp add: x_def)
  have "(of_nat n :: rat) \<le> of_nat (2 ^ 53)" using assms by (rule of_nat_mono)
  then have xle: "x \<le> 2 ^ 53" by (simp add: x_def)
  have b: "2 powi k \<le> x" "x < 2 powi (k + 1)"
    using expo_bounds [of x] x1 by (simp_all add: k_def)
  have "(2::rat) powi 0 < 2 powi (k + 1)" using x1 b(2) by simp
  then have k0: "0 \<le> k"
    by (metis linorder_not_le power_int_increasing one_le_numeral zless_add1_eq order_less_le)
  have "(2::rat) powi k \<le> 2 powi 53" using b(1) xle by simp
  then have k53: "k \<le> 53"
    by (metis linorder_not_le power_int_strict_increasing one_less_numeral_iff semiring_norm(76))
  show ?thesis
  proof (cases "k = 53")
    case True
    then have "x = 2 ^ 53" using b(1) xle by simp
    then have d: "x / 2 powi (k - 52) = of_int (2 ^ 52)" using True by simp
    have "- 1022 \<le> k" "k < 1023" using True by simp_all
    with b have "f64_round x = Finite x"
      using d by (rule f64_round_integral)
    then show ?thesis by (simp add: f64_of_nat_def x_def)
  next
    case False
    with k53 have kl: "k \<le> 52" by simp
    have "2 powi (k - 52) = 1 / (2::rat) ^ nat (52 - k)"
      using kl power_int_minus_divide [of "2::rat" "52 - k"] by (simp add: power_int_def)
    then have d: "x / 2 powi (k - 52) = of_int (int n * 2 ^ nat (52 - k))"
      by (simp add: x_def)
    have "- 1022 \<le> k" "k < 1023" using k0 kl by simp_all
    with b have "f64_round x = Finite x"
      using d by (rule f64_round_integral)
    then show ?thesis by (simp add: f64_of_nat_def x_def)
  qed
qed

lemma decision_pos:
  assumes e0: "0 < e" and r0: "0 < r" and eb: "e \<le> 2 ^ 53" and rb: "r \<le> 2 ^ 53"
  shows "f64_less (f64_round (of_nat e / of_nat r)) errorThreshold \<longleftrightarrow> 20 * e < r"
proof -
  define E :: rat where "E = of_nat e"
  define R :: rat where "R = of_nat r"
  define x where "x = E / R"
  define k where "k = expo x"
  define u :: rat where "u = 2 powi (k - 52)"
  define m where "m = rne (x / u)"
  have E1: "1 \<le> E" using e0 by (simp add: E_def)
  have R1: "1 \<le> R" using r0 by (simp add: R_def)
  have "(of_nat e :: rat) \<le> of_nat (2 ^ 53)" using eb by (rule of_nat_mono)
  then have Eb: "E \<le> 2 ^ 53" by (simp add: E_def)
  have "(of_nat r :: rat) \<le> of_nat (2 ^ 53)" using rb by (rule of_nat_mono)
  then have Rb: "R \<le> 2 ^ 53" by (simp add: R_def)
  have yes: "20 * E + 1 \<le> R" if "20 * e < r"
  proof -
    from that have "20 * e + 1 \<le> r" by simp
    then have "(of_nat (20 * e + 1) :: rat) \<le> of_nat r" by (rule of_nat_mono)
    then show ?thesis by (simp add: E_def R_def)
  qed
  have no: "R \<le> 20 * E" if "\<not> 20 * e < r"
  proof -
    from that have "r \<le> 20 * e" by simp
    then have "(of_nat r :: rat) \<le> of_nat (20 * e)" by (rule of_nat_mono)
    then show ?thesis by (simp add: E_def R_def)
  qed
  have x0: "0 < x" using E1 R1 by (simp add: x_def)
  have xhi: "x \<le> 2 ^ 53"
    using E1 R1 Eb by (simp add: x_def pos_divide_le_eq)
  have xlo: "1 / 2 ^ 53 \<le> x"
    using E1 R1 Rb by (simp add: x_def pos_le_divide_eq)
  have b: "2 powi k \<le> x" "x < 2 powi (k + 1)"
    using expo_bounds [OF x0] by (simp_all add: k_def)
  have "(2::rat) powi k \<le> 2 powi 53" using b(1) xhi by simp
  then have k_hi: "k \<le> 53"
    by (metis linorder_not_le power_int_strict_increasing one_less_numeral_iff semiring_norm(76))
  have "(2::rat) powi (- 53) < 2 powi (k + 1)"
    using b(2) xlo by (simp add: power_int_minus_divide)
  then have k_lo: "- 53 < k + 1"
    by (metis linorder_not_le power_int_increasing one_le_numeral)
  have kr: "- 1022 \<le> k" "k < 1023" using k_hi k_lo by simp_all
  have u0: "0 < u" by (simp add: u_def)
  have rnd: "f64_round x = Finite (of_int m * u)"
    unfolding m_def u_def using b kr by (rule f64_round_normal(1))
  have m_lo: "2 ^ 52 \<le> m"
    unfolding m_def u_def using b kr by (rule f64_round_normal(2))
  have m_hi: "m \<le> 2 ^ 53"
    unfolding m_def u_def using b kr by (rule f64_round_normal(3))
  have pk: "(2::rat) powi k = 2 ^ 52 * u"
    using power_int_add [of "2::rat" 52 "k - 52"] by (simp add: u_def)
  have pk1: "(2::rat) powi (k + 1) = 2 ^ 53 * u"
    using power_int_add [of "2::rat" 53 "k - 52"] by (simp add: u_def add.commute)
  have lhs: "f64_less (f64_round x) errorThreshold \<longleftrightarrow> of_int m * u < 7205759403792794 / 2 ^ 57"
    by (simp add: rnd errorThreshold_value)
  consider "k = - 5" | "k \<le> - 6" | "- 4 \<le> k" by linarith
  then have "of_int m * u < 7205759403792794 / 2 ^ 57 \<longleftrightarrow> 20 * e < r"
  proof cases
    case 1
    have u57: "u = 1 / 2 ^ 57"
      using power_int_minus_divide [of "2::rat" 57] by (simp add: u_def 1)
    have "of_int m * u < 7205759403792794 / 2 ^ 57 \<longleftrightarrow> m < 7205759403792794"
      by (simp add: u57)
    also have "\<dots> \<longleftrightarrow> x / u < of_int 7205759403792794 - 1 / 2"
      unfolding m_def by (rule rne_less_even) simp
    also have "\<dots> \<longleftrightarrow> E * 2 ^ 58 < 14411518807585587 * R"
      using R1 by (simp add: u57 x_def field_simps)
    also have "\<dots> \<longleftrightarrow> 20 * e < r"
    proof
      assume a: "E * 2 ^ 58 < 14411518807585587 * R"
      show "20 * e < r"
      proof (rule ccontr)
        assume "\<not> 20 * e < r"
        then have "R \<le> 20 * E" by (rule no)
        with a E1 show False by simp
      qed
    next
      assume "20 * e < r"
      then have "20 * E + 1 \<le> R" by (rule yes)
      with Rb show "E * 2 ^ 58 < 14411518807585587 * R" by simp
    qed
    finally show ?thesis .
  next
    case 2
    have "of_int m * u \<le> of_int (2 ^ 53) * u"
      using m_hi u0 by (simp only: mult_le_cancel_right_pos of_int_le_iff)
    also have "\<dots> = 2 powi (k + 1)" by (simp add: pk1)
    also have "\<dots> \<le> 2 powi (- 5)" using 2 by (intro power_int_increasing) simp_all
    finally have l: "of_int m * u \<le> 1 / 2 ^ 5" by (simp add: power_int_minus_divide)
    have "x < 2 powi (k + 1)" by (rule b(2))
    also have "\<dots> \<le> 2 powi (- 5)" using 2 by (intro power_int_increasing) simp_all
    finally have "E / R < 1 / 32" by (simp add: power_int_minus_divide x_def)
    then have "32 * E < R" using R1 by (simp add: field_simps)
    then have "20 * e < r"
      using no [of] E1 by (cases "20 * e < r") auto
    with l show ?thesis by simp
  next
    case 3
    have "(2::rat) powi (- 4) \<le> 2 powi k" using 3 by (intro power_int_increasing) simp_all
    also have "\<dots> = of_int (2 ^ 52) * u" by (simp add: pk)
    also have "\<dots> \<le> of_int m * u"
      using m_lo u0 by (simp only: mult_le_cancel_right_pos of_int_le_iff)
    finally have l: "1 / 2 ^ 4 \<le> of_int m * u" by (simp add: power_int_minus_divide)
    have "(2::rat) powi (- 4) \<le> 2 powi k" using 3 by (intro power_int_increasing) simp_all
    also have "\<dots> \<le> x" by (rule b(1))
    finally have "1 / 16 \<le> E / R" by (simp add: power_int_minus_divide x_def)
    then have "R \<le> 16 * E" using R1 by (simp add: field_simps)
    then have "\<not> 20 * e < r"
      using yes E1 by (cases "20 * e < r") auto
    with l show ?thesis by simp
  qed
  with lhs show ?thesis by (simp add: x_def E_def R_def)
qed

section \<open>The record validator\<close>

text \<open>
  Claim C7.  \<open>Validate\<close> accepts a record exactly when each of the four fields is non-empty
  after trimming, and otherwise rejects with the error that names the first field, in the
  order order number, tracking number, carrier code, title, whose trimmed value is empty.
\<close>

theorem Validate_first_missing:
  "(Validate t = None \<longleftrightarrow>
      TrimSpace (OrderNumber t) \<noteq> [] \<and> TrimSpace (TrackingNumber t) \<noteq> []
      \<and> TrimSpace (CarrierCode t) \<noteq> [] \<and> TrimSpace (Title t) \<noteq> [])
   \<and> Validate t = map_option Required (find (missing t) checkOrder)"
  by (simp add: Validate_def checkOrder_def missing_def)

theorem Validate_first_missing_witness:
  "Validate \<lparr>OrderNumber = ''1001'', TrackingNumber = '' '', CarrierCode = [], Title = ''UPS''\<rparr>
     = Some (Required FTrackingNumber)
   \<and> Validate \<lparr>OrderNumber = ''1001'', TrackingNumber = ''1Z'', CarrierCode = ''ups'', Title = ''UPS''\<rparr>
     = None"
  using Validate_first_missing
      [of "\<lparr>OrderNumber = ''1001'', TrackingNumber = '' '', CarrierCode = [], Title = ''UPS''\<rparr>"]
    Validate_first_missing
      [of "\<lparr>OrderNumber = ''1001'', TrackingNumber = ''1Z'', CarrierCode = ''ups'', Title = ''UPS''\<rparr>"]
  by (simp add: checkOrder_def missing_def TrimSpace_def leadingSpace_def spaceEncodings_def)

section \<open>Retry and backoff\<close>

lemma attemptsOf_interleave: "attemptsOf (interleave b i atts) = atts"
  by (induction b i atts rule: interleave.induct) simp_all

lemma retried_step:
  assumes "retried c dec (Suc a) atts res" "failed out" "int (Suc a) < maxRetries c"
  shows "retried c dec a ((r, out) # atts) res"
proof -
  from assms(1,3) have ne: "atts \<noteq> []" by (simp add: retried_def)
  then have l: "last ((r, out) # atts) = last atts" "butlast ((r, out) # atts) = (r, out) # butlast atts"
    by simp_all
  have m: "max (int a) (maxRetries c) = max (int (Suc a)) (maxRetries c)"
    using assms(3) by simp
  have ex: "exhausted (a + length ((r, out) # atts)) (map snd ((r, out) # atts))
      = exhausted (Suc a + length atts) (map snd atts)"
    using ne by (simp add: exhausted_def)
  show ?thesis
    using assms(1,2) ne unfolding retried_def l ex m by (auto)
qed

lemma interleave_step:
  "atts \<noteq> [] \<Longrightarrow> interleave b i ((r, out) # atts) = EvDo r out # EvSleep (b * of_nat i) # interleave b (Suc i) atts"
  by (cases atts) auto

lemma doRequest_loop_trace:
  "doRequest_loop c env dec req a tr = (res, tr') \<Longrightarrow>
     \<exists>atts. tr' = tr @ interleave (backoff c) (Suc a) atts \<and> retried c dec a atts res"
proof (induction c env dec req a tr arbitrary: res tr' rule: doRequest_loop.induct)
  case (1 c env dec req attempts tr)
  show ?case
  proof (cases "int attempts < maxRetries c")
    case False
    with "1.prems" have "res = Inl MaxRetriesExceeded" "tr' = tr" by (simp_all add: doRequest_loop.simps)
    then have "tr' = tr @ interleave (backoff c) (Suc attempts) []
        \<and> retried c dec attempts [] res"
      using False by (simp add: retried_def exhausted_def)
    then show ?thesis by blast
  next
    case lt: True
    define out where "out = env tr req"
    define tr1 where "tr1 = tr @ [EvDo req out]"
    define tr2 where "tr2 = tr1 @ [EvSleep (backoff c * of_nat (attempts + 1))]"
    show ?thesis
    proof (cases "failed out \<and> int (attempts + 1) < maxRetries c")
      case True
      define req' where "req' = (case out of TransportError e \<Rightarrow> req
         | Response status body \<Rightarrow> if req_body req \<noteq> None then req\<lparr>req_body := Some body\<rparr> else req)"
      have rec: "doRequest_loop c env dec req' (attempts + 1) tr2 = (res, tr')"
        using "1.prems" lt True
        by (subst (asm) doRequest_loop.simps)
           (auto simp: out_def tr1_def tr2_def req'_def Let_def split: outcome.splits)
      have "\<exists>atts. tr' = tr2 @ interleave (backoff c) (Suc (attempts + 1)) atts
          \<and> retried c dec (attempts + 1) atts res"
      proof (cases out)
        case (TransportError e)
        then have "req' = req" by (simp add: req'_def)
        with rec have "doRequest_loop c env dec req (attempts + 1) tr2 = (res, tr')" by simp
        then show ?thesis
          using "1.IH"(1) [OF lt refl refl refl, of e res tr'] True TransportError
          by (simp add: out_def tr1_def tr2_def)
      next
        case (Response status body)
        then have f: "status < 200 \<or> 300 \<le> status" using True by simp
        from rec show ?thesis
          using "1.IH"(2) [OF lt refl refl refl _ f, of body res tr'] True Response
          by (simp add: out_def tr1_def tr2_def req'_def)
      qed
      then obtain atts where a: "tr' = tr2 @ interleave (backoff c) (Suc (attempts + 1)) atts"
        and r: "retried c dec (Suc attempts) atts res" by auto
      from r True have ne: "atts \<noteq> []" by (simp add: retried_def)
      have "retried c dec attempts ((req, out) # atts) res"
        using r True by (intro retried_step) simp_all
      moreover have "tr' = tr @ interleave (backoff c) (Suc attempts) ((req, out) # atts)"
        using a ne by (simp add: interleave_step tr2_def tr1_def)
      ultimately show ?thesis by blast
    next
      case False
      have "tr' = tr @ interleave (backoff c) (Suc attempts) [(req, out)]
          \<and> retried c dec attempts [(req, out)] res"
        using "1.prems" lt False
        by (subst (asm) doRequest_loop.simps)
           (auto simp: out_def Let_def retried_def exhausted_def split: outcome.splits if_splits)
      then show ?thesis by blast
    qed
  qed
qed

text \<open>
  Claim C2.  The events a call of \<open>doRequest\<close> adds to the trace are its attempts with a
  sleep of \<open>backoff * i\<close> after the \<open>i\<close>-th attempt and before the next one.  Every
  attempt but the last has failed.  If the last attempt succeeded, the result is the
  decoding of its body, and nothing follows it.  Otherwise every attempt failed, there
  were exactly \<open>maxRetries\<close> of them (none if \<open>maxRetries\<close> is not positive), and the
  result is the error of the exhausted retries.
\<close>

theorem doRequest_retry:
  assumes "doRequest c env dec req tr = (res, tr')"
  shows "let atts = attemptsOf (drop (length tr) tr') in
           tr' = tr @ interleave (backoff c) 1 atts
         \<and> (\<forall>x \<in> set (butlast atts). failed (snd x))
         \<and> (if atts \<noteq> [] \<and> \<not> failed (snd (last atts))
            then res = dec (responseBody (snd (last atts)))
            else int (length atts) = max 0 (maxRetries c)
                 \<and> res = Inl (exhausted (length atts) (map snd atts)))"
proof -
  from assms obtain atts where t: "tr' = tr @ interleave (backoff c) (Suc 0) atts"
    and r: "retried c dec 0 atts res"
    unfolding doRequest_def by (blast dest: doRequest_loop_trace)
  have a: "attemptsOf (drop (length tr) tr') = atts"
    by (simp add: t attemptsOf_interleave)
  show ?thesis
    unfolding a Let_def using t r by (auto simp: retried_def split: if_splits)
qed

theorem doRequest_retry_witness:
  "doRequest exampleClient envDown decodeUnit exampleRequest [] =
     (Inl (RequestFailed 3 (LibError ''connection refused'')),
      [EvDo exampleRequest (TransportError ''connection refused''), EvSleep 1000000000,
       EvDo exampleRequest (TransportError ''connection refused''), EvSleep 2000000000,
       EvDo exampleRequest (TransportError ''connection refused'')])
   \<and> fst (doRequest exampleClient envFlaky decodeUnit exampleRequest []) = Inr ()
   \<and> length (attemptsOf (snd (doRequest exampleClient envFlaky decodeUnit exampleRequest []))) = 2"
proof -
  have d: "doRequest exampleClient envDown decodeUnit exampleRequest [] =
     (Inl (RequestFailed 3 (LibError ''connection refused'')),
      [EvDo exampleRequest (TransportError ''connection refused''), EvSleep 1000000000,
       EvDo exampleRequest (TransportError ''connection refused''), EvSleep 2000000000,
       EvDo exampleRequest (TransportError ''connection refused'')])"
    by (simp add: doRequest_def doRequest_loop.simps exampleClient_def envDown_def second_def)
  have f: "doRequest exampleClient envFlaky decodeUnit exampleRequest [] =
     (Inr (),
      [EvDo exampleRequest (Response 500 ''busy''), EvSleep 1000000000,
       EvDo (exampleRequest\<lparr>req_body := Some ''busy''\<rparr>) (Response 200 ''done'')])"
    by (simp add: doRequest_def doRequest_loop.simps exampleClient_def envFlaky_def second_def
        decodeUnit_def exampleRequest_def)
  from doRequest_retry [OF d] doRequest_retry [OF f] show ?thesis
    using d f by simp
qed

text \<open>
  Claim C3.  A request with a body (the tracking update is the only one) is not repeated
  unchanged after an out-of-range status: the body of the second attempt is the body of
  the failed response, here \<open>busy\<close> instead of \<open>entity-1\<close>.
\<close>

theorem doRequest_retry_replaces_body:
  "attemptsOf (snd (doRequest exampleClient envFlaky decodeUnit exampleRequest [])) =
     [(exampleRequest, Response 500 ''busy''),
      (exampleRequest\<lparr>req_body := Some ''busy''\<rparr>, Response 200 ''done'')]
   \<and> req_body exampleRequest = Some ''entity-1''"
  by (simp add: doRequest_def doRequest_loop.simps exampleClient_def envFlaky_def second_def
        decodeUnit_def exampleRequest_def)

section \<open>The dispatch queue\<close>

lemma ledgerMatches_New: "ledgerMatches NewCSVProcessor"
  by (simp add: ledgerMatches_def NewCSVProcessor_def mapIndex_def)

lemma ProcessFile_known: "mapIndex (processedFiles p) f \<Longrightarrow> ProcessFile f p = Done p"
  by (simp add: ProcessFile_def)

lemma act_ledger:
  assumes "ledgerMatches p" "act a p = Done p'"
  shows "ledgerMatches p'
    \<and> (\<forall>f. mapIndex (processedFiles p') f \<longleftrightarrow> mapIndex (processedFiles p) f \<or> a = Submit f)"
proof (cases a)
  case (Submit g)
  show ?thesis
  proof (cases "mapIndex (processedFiles p) g")
    case True
    with assms Submit have "p' = p" by (simp add: ProcessFile_def)
    with assms True Submit show ?thesis by auto
  next
    case False
    with assms(2) Submit
    have p': "p' = p\<lparr>processedFiles := (processedFiles p)(g \<mapsto> True),
                     workChan := (workChan p)\<lparr>sent := sent (workChan p) @ [g]\<rparr>\<rparr>"
      by (auto simp: ProcessFile_def chanSend_def Let_def split: if_splits)
    have "count_list (sent (workChan p)) g = 0"
      using assms(1) False by (simp add: ledgerMatches_def)
    then show ?thesis
      using assms(1) False unfolding p' Submit ledgerMatches_def
      by (auto simp: mapIndex_def)
  qed
next
  case Receive
  with assms(2) have "processedFiles p' = processedFiles p" "sent (workChan p') = sent (workChan p)"
    by (auto simp: chanRecv_def split: if_splits step.splits)
  with assms(1) Receive show ?thesis by (simp add: ledgerMatches_def)
next
  case Close
  with assms(2) have "processedFiles p' = processedFiles p" "sent (workChan p') = sent (workChan p)"
    by (auto simp: chanClose_def split: if_splits step.splits)
  with assms(1) Close show ?thesis by (simp add: ledgerMatches_def)
qed

lemma run_ledger:
  "ledgerMatches p \<Longrightarrow> run acts p = Done p' \<Longrightarrow>
     ledgerMatches p'
     \<and> (\<forall>f. mapIndex (processedFiles p') f \<longleftrightarrow> mapIndex (processedFiles p) f \<or> Submit f \<in> set acts)"
proof (induction acts arbitrary: p)
  case Nil
  then show ?case by simp
next
  case (Cons a acts)
  from Cons.prems(2) obtain q where q: "act a p = Done q" and r: "run acts q = Done p'"
    by (auto split: step.splits)
  from act_ledger [OF Cons.prems(1) q] Cons.IH [OF _ r] show ?case by auto
qed

text \<open>
  Claim C4.  In every process lifetime (any order of submissions, worker receives and the
  closing of the channel that runs without a panic), a path has been placed on the work
  channel exactly once if it was submitted at least once and never otherwise; the ledger
  holds exactly the submitted paths (a map has each key once); and a further submission of
  a submitted path changes nothing.
\<close>

theorem ProcessFile_idempotent:
  assumes "run acts NewCSVProcessor = Done p"
  shows "count_list (sent (workChan p)) f = (if Submit f \<in> set acts then 1 else 0)
       \<and> (mapIndex (processedFiles p) f \<longleftrightarrow> Submit f \<in> set acts)
       \<and> (Submit f \<in> set acts \<longrightarrow> ProcessFile f p = Done p)"
proof -
  from run_ledger [OF ledgerMatches_New assms]
  have l: "ledgerMatches p" and m: "mapIndex (processedFiles p) f \<longleftrightarrow> Submit f \<in> set acts"
    by (simp_all add: NewCSVProcessor_def mapIndex_def)
  from l m show ?thesis
    by (auto simp: ledgerMatches_def ProcessFile_known)
qed

theorem ProcessFile_idempotent_witness:
  "run [Submit ''a.csv'', Receive, Submit ''a.csv'', Submit ''b.csv''] NewCSVProcessor =
     Done \<lparr>processedFiles = [''a.csv'' \<mapsto> True, ''b.csv'' \<mapsto> True],
           workChan = \<lparr>sent = [''a.csv'', ''b.csv''], received = 1, closed = False, capacity = 100\<rparr>\<rparr>
   \<and> count_list [''a.csv'', ''b.csv''] ''a.csv'' = 1"
proof -
  have r: "run [Submit ''a.csv'', Receive, Submit ''a.csv'', Submit ''b.csv''] NewCSVProcessor =
     Done \<lparr>processedFiles = [''a.csv'' \<mapsto> True, ''b.csv'' \<mapsto> True],
           workChan = \<lparr>sent = [''a.csv'', ''b.csv''], received = 1, closed = False, capacity = 100\<rparr>\<rparr>"
    by (simp add: NewCSVProcessor_def ProcessFile_def mapIndex_def chanSend_def chanRecv_def)
  from ProcessFile_idempotent [OF r, of "''a.csv''"] r show ?thesis by simp
qed

section \<open>The directory watcher\<close>

lemma isFileReady_stable:
  "isFileReady env path tr = (b, tr') \<Longrightarrow>
     (b \<longleftrightarrow> stableFile env path tr) \<and> (\<exists>new. tr' = tr @ new \<and> submitted new = [])"
  by (auto simp: isFileReady_def stableFile_def Let_def second_def split: option.splits)

lemma isTargetFile_trace:
  "isTargetFile w env path tr = (b, tr') \<Longrightarrow>
     tr' = tr @ [FsStat path (statOracle env tr path)]"
  by (auto simp: isTargetFile_def Let_def split: option.splits if_splits)

lemma submitted_append: "submitted (xs @ ys) = submitted xs @ submitted ys"
  by (induction xs rule: submitted.induct) simp_all

text \<open>
  Claim C8.  \<open>handleEvent\<close> only adds to the trace, and it hands the file to the processor
  exactly when the event is a create or write, the path is a target file and, after the
  settle delay, the file is stable: both observations succeed with equal size and
  modification time.  In every other case, in particular when size or modification time
  differ between the two observations, nothing is handed over.
\<close>

theorem handleEvent_stable_only:
  "take (length tr) (handleEvent w env event tr) = tr
   \<and> submitted (drop (length tr) (handleEvent w env event tr)) =
       (if Op event AND (Create OR Write) \<noteq> 0
           \<and> fst (isTargetFile w env (Name event) tr)
           \<and> stableFile env (Name event)
               (snd (isTargetFile w env (Name event) tr) @ [FsSleep (500 * millisecond)])
        then [Name event] else [])"
proof (cases "Op event AND (Create OR Write) = 0")
  case True
  then show ?thesis by (simp add: handleEvent_def)
next
  case False
  obtain t tr1 where t: "isTargetFile w env (Name event) tr = (t, tr1)" by fastforce
  then have tr1: "tr1 = tr @ [FsStat (Name event) (statOracle env tr (Name event))]"
    by (rule isTargetFile_trace)
  show ?thesis
  proof (cases t)
    case f: False
    with False t tr1 show ?thesis by (simp add: handleEvent_def)
  next
    case True
    obtain b tr2 where r: "isFileReady env (Name event) (tr1 @ [FsSleep (500 * millisecond)]) = (b, tr2)"
      by fastforce
    from isFileReady_stable [OF r] obtain new where
      b: "b \<longleftrightarrow> stableFile env (Name event) (tr1 @ [FsSleep (500 * millisecond)])"
      and n: "tr2 = (tr1 @ [FsSleep (500 * millisecond)]) @ new" "submitted new = []"
      by auto
    show ?thesis
      using False t True r b n tr1
      by (cases b) (simp_all add: handleEvent_def submitted_append)
  qed
qed


theorem handleEvent_stable_only_witness:
  "submitted (handleEvent csvWatcher exampleFs \<lparr>Name = ''in/a.csv'', Op = Create\<rparr> []) = [''in/a.csv'']
   \<and> submitted (handleEvent csvWatcher growingFs \<lparr>Name = ''in/a.csv'', Op = Write\<rparr> []) = []
   \<and> \<not> stableFile growingFs ''in/a.csv''
         (snd (isTargetFile csvWatcher growingFs ''in/a.csv'' []) @ [FsSleep (500 * millisecond)])"
  using handleEvent_stable_only [of "[]" csvWatcher exampleFs "\<lparr>Name = ''in/a.csv'', Op = Create\<rparr>"]
    handleEvent_stable_only [of "[]" csvWatcher growingFs "\<lparr>Name = ''in/a.csv'', Op = Write\<rparr>"]
  by (simp add: isTargetFile_def stableFile_def csvWatcher_def exampleFs_def quietFs_def
      growingFs_def Base_def Create_def Write_def suffix_def)

lemma sweepLoop_trace:
  "\<exists>new. sweepLoop w env files tr = tr @ new
     \<and> subseq (submitted new) files
     \<and> ((\<forall>h p. statOracle env h p = st p) \<longrightarrow> submitted new = filter (regularMatch w st) files)"
proof (induction files arbitrary: tr)
  case Nil
  then show ?case by simp
next
  case (Cons f files)
  obtain t tr1 where t: "isTargetFile w env f tr = (t, tr1)" by fastforce
  then have tr1: "tr1 = tr @ [FsStat f (statOracle env tr f)]"
    by (rule isTargetFile_trace)
  have tq: "t \<longleftrightarrow> regularMatch w st f" if "\<forall>h p. statOracle env h p = st p"
    using t that by (auto simp: isTargetFile_def regularMatch_def Let_def split: option.splits if_splits)
  show ?case
  proof (cases t)
    case False
    from Cons.IH [of tr1] obtain new where
      n: "sweepLoop w env files tr1 = tr1 @ new" "subseq (submitted new) files"
        "(\<forall>h p. statOracle env h p = st p) \<longrightarrow> submitted new = filter (regularMatch w st) files"
      by blast
    have "sweepLoop w env (f # files) tr = tr @ (FsStat f (statOracle env tr f) # new)"
      using t False n(1) tr1 by simp
    moreover have "subseq (submitted (FsStat f (statOracle env tr f) # new)) (f # files)"
      using n(2) by (auto intro: list_emb_Cons)
    moreover have "(\<forall>h p. statOracle env h p = st p) \<longrightarrow>
        submitted (FsStat f (statOracle env tr f) # new) = filter (regularMatch w st) (f # files)"
      using n(3) tq False by simp
    ultimately show ?thesis by blast
  next
    case True
    obtain b tr2 where r: "isFileReady env f tr1 = (b, tr2)" by fastforce
    from isFileReady_stable [OF r] obtain mid where
      b: "b \<longleftrightarrow> stableFile env f tr1" and m: "tr2 = tr1 @ mid" "submitted mid = []"
      by auto
    have bq: "b" if "\<forall>h p. statOracle env h p = st p"
    proof -
      from True tq [OF that] obtain fi where "st f = Some fi"
        by (auto simp: regularMatch_def split: option.splits)
      with that show ?thesis unfolding b by (simp add: stableFile_def)
    qed
    define tr3 where "tr3 = (if b then tr2 @ [FsSubmit f] else tr2)"
    from Cons.IH [of tr3] obtain new where
      n: "sweepLoop w env files tr3 = tr3 @ new" "subseq (submitted new) files"
        "(\<forall>h p. statOracle env h p = st p) \<longrightarrow> submitted new = filter (regularMatch w st) files"
      by blast
    define ev where "ev = FsStat f (statOracle env tr f) # mid @ (if b then [FsSubmit f] else []) @ new"
    have "sweepLoop w env (f # files) tr = tr @ ev"
      using t True r n(1) m(1) tr1 by (cases b) (simp_all add: tr3_def ev_def)
    moreover have s: "submitted ev = (if b then [f] else []) @ submitted new"
      using m(2) by (simp add: ev_def submitted_append)
    have "subseq (submitted ev) (f # files)"
      unfolding s using n(2) by (auto intro: list_emb_Cons)
    moreover have "(\<forall>h p. statOracle env h p = st p) \<longrightarrow>
        submitted ev = filter (regularMatch w st) (f # files)"
      unfolding s using n(3) tq True bq by simp
    ultimately show ?thesis by blast
  qed
qed

text \<open>
  What the sweep does hand over: only files of the listing of the fixed glob \<open>*.csv\<close>, in
  listing order and each listed file at most once; and, when the file system is at rest
  during the sweep, exactly the listed files that are not directories and whose base name
  matches the configured pattern.
\<close>

lemma processExistingFiles_sweep:
  assumes "globOracle env tr (joinPath env (Directory w) ''*.csv'') = Some files"
  shows "take (length tr) (processExistingFiles w env tr) = tr
       \<and> subseq (submitted (drop (length tr) (processExistingFiles w env tr))) files
       \<and> ((\<forall>h p. statOracle env h p = st p) \<longrightarrow>
            submitted (drop (length tr) (processExistingFiles w env tr))
              = filter (regularMatch w st) files)"
proof -
  define g where "g = FsGlob (joinPath env (Directory w) ''*.csv'') (Some files)"
  from sweepLoop_trace [of w env files "tr @ [g]" st] obtain new where
    n: "sweepLoop w env files (tr @ [g]) = (tr @ [g]) @ new" "subseq (submitted new) files"
      "(\<forall>h p. statOracle env h p = st p) \<longrightarrow> submitted new = filter (regularMatch w st) files"
    by blast
  have "processExistingFiles w env tr = tr @ g # new"
    using assms n(1) by (simp add: processExistingFiles_def Let_def g_def)
  then show ?thesis using n(2,3) by (simp add: g_def)
qed

lemma processExistingFiles_sweep_example:
  "submitted (processExistingFiles csvWatcher exampleFs []) = [''in/a.csv'']"
proof -
  define st where "st = statOracle exampleFs []"
  have g: "globOracle exampleFs [] (joinPath exampleFs (Directory csvWatcher) ''*.csv'')
      = Some [''in/a.csv'', ''in/old.csv'']"
    by (simp add: exampleFs_def quietFs_def csvWatcher_def suffix_def)
  have q: "\<forall>h p. statOracle exampleFs h p = st p"
    by (simp add: st_def exampleFs_def quietFs_def)
  from processExistingFiles_sweep [OF g, of st] q
  have "submitted (processExistingFiles csvWatcher exampleFs [])
      = filter (regularMatch csvWatcher st) [''in/a.csv'', ''in/old.csv'']"
    by simp
  then show ?thesis
    by (simp add: regularMatch_def st_def exampleFs_def quietFs_def csvWatcher_def Base_def suffix_def)
qed

text \<open>
  Claim C9.  The sweep should hand over every file present in the watched directory whose
  base name matches the configured pattern and that is a stable regular file, for every
  pattern.  It does not: with a pattern that accepts \<open>orders.txt\<close>, that file is present,
  a target file and stable, and the sweep hands over nothing, while a create event for
  the same file under the same watcher does hand it over.
\<close>

theorem processExistingFiles_misses_pattern:
  "fst (isTargetFile txtWatcher exampleFs ''in/orders.txt'' [])
   \<and> fst (isFileReady exampleFs ''in/orders.txt'' [])
   \<and> submitted (processExistingFiles txtWatcher exampleFs []) = []
   \<and> submitted (handleEvent txtWatcher exampleFs \<lparr>Name = ''in/orders.txt'', Op = Create\<rparr> [])
       = [''in/orders.txt'']"
  by (simp add: isTargetFile_def isFileReady_def processExistingFiles_def handleEvent_def
      txtWatcher_def exampleFs_def quietFs_def Base_def suffix_def Let_def Create_def Write_def)

section \<open>The header and the client operations\<close>

lemma setColumn_orderNumber:
  "orderNumber (setColumn ix i col) = (if col = ''order_number'' then i else orderNumber ix)"
  by (simp add: setColumn_def)

lemma columnLoop_orderNumber:
  "(''order_number'' \<notin> set cols \<longrightarrow> orderNumber (columnLoop cols i ix) = orderNumber ix)
   \<and> (''order_number'' \<in> set cols \<longrightarrow>
        i \<le> orderNumber (columnLoop cols i ix) \<and> orderNumber (columnLoop cols i ix) < i + int (length cols))"
proof (induction cols arbitrary: i ix)
  case Nil
  show ?case by simp
next
  case (Cons col cols)
  note ih = Cons [of "i + 1" "setColumn ix i col"]
  show ?case
  proof (cases "''order_number'' \<in> set cols")
    case True
    with ih show ?thesis by simp
  next
    case False
    with ih show ?thesis by (cases "col = ''order_number''") (simp_all add: setColumn_orderNumber)
  qed
qed

lemma setColumn_trackingNumber:
  "trackingNumber (setColumn ix i col) = (if col = ''tracking_number'' then i else trackingNumber ix)"
  by (simp add: setColumn_def)

lemma columnLoop_trackingNumber:
  "(''tracking_number'' \<notin> set cols \<longrightarrow> trackingNumber (columnLoop cols i ix) = trackingNumber ix)
   \<and> (''tracking_number'' \<in> set cols \<longrightarrow>
        i \<le> trackingNumber (columnLoop cols i ix) \<and> trackingNumber (columnLoop cols i ix) < i + int (length cols))"
proof (induction cols arbitrary: i ix)
  case Nil
  show ?case by simp
next
  case (Cons col cols)
  note ih = Cons [of "i + 1" "setColumn ix i col"]
  show ?case
  proof (cases "''tracking_number'' \<in> set cols")
    case True
    with ih show ?thesis by simp
  next
    case False
    with ih show ?thesis by (cases "col = ''tracking_number''") (simp_all add: setColumn_trackingNumber)
  qed
qed

lemma setColumn_carrierCode:
  "carrierCode (setColumn ix i col) = (if col = ''carrier_code'' then i else carrierCode ix)"
  by (simp add: setColumn_def)

lemma columnLoop_carrierCode:
  "(''carrier_code'' \<notin> set cols \<longrightarrow> carrierCode (columnLoop cols i ix) = carrierCode ix)
   \<and> (''carrier_code'' \<in> set cols \<longrightarrow>
        i \<le> carrierCode (columnLoop cols i ix) \<and> carrierCode (columnLoop cols i ix) < i + int (length cols))"
proof (induction cols arbitrary: i ix)
  case Nil
  show ?case by simp
next
  case (Cons col cols)
  note ih = Cons [of "i + 1" "setColumn ix i col"]
  show ?case
  proof (cases "''carrier_code'' \<in> set cols")
    case True
    with ih show ?thesis by simp
  next
    case False
    with ih show ?thesis by (cases "col = ''carrier_code''") (simp_all add: setColumn_carrierCode)
  qed
qed

lemma setColumn_title:
  "title (setColumn ix i col) = (if col = ''title'' then i else title ix)"
  by (simp add: setColumn_def)

lemma columnLoop_title:
  "(''title'' \<notin> set cols \<longrightarrow> title (columnLoop cols i ix) = title ix)
   \<and> (''title'' \<in> set cols \<longrightarrow>
        i \<le> title (columnLoop cols i ix) \<and> title (columnLoop cols i ix) < i + int (length cols))"
proof (induction cols arbitrary: i ix)
  case Nil
  show ?case by simp
next
  case (Cons col cols)
  note ih = Cons [of "i + 1" "setColumn ix i col"]
  show ?case
  proof (cases "''title'' \<in> set cols")
    case True
    with ih show ?thesis by simp
  next
    case False
    with ih show ?thesis by (cases "col = ''title''") (simp_all add: setColumn_title)
  qed
qed

lemma getColumnIndices_missing:
  "orderNumber (getColumnIndices header) = - 1 \<or> trackingNumber (getColumnIndices header) = - 1
     \<or> carrierCode (getColumnIndices header) = - 1 \<or> title (getColumnIndices header) = - 1
   \<longleftrightarrow> \<not> set required \<subseteq> set header"
  unfolding getColumnIndices_def required_def
  using columnLoop_orderNumber [of header 0 "\<lparr>orderNumber = - 1, trackingNumber = - 1, carrierCode = - 1, title = - 1\<rparr>"]
    columnLoop_trackingNumber [of header 0 "\<lparr>orderNumber = - 1, trackingNumber = - 1, carrierCode = - 1, title = - 1\<rparr>"]
    columnLoop_carrierCode [of header 0 "\<lparr>orderNumber = - 1, trackingNumber = - 1, carrierCode = - 1, title = - 1\<rparr>"]
    columnLoop_title [of header 0 "\<lparr>orderNumber = - 1, trackingNumber = - 1, carrierCode = - 1, title = - 1\<rparr>"]
  by auto

lemma getColumnIndices_within:
  "set required \<subseteq> set header \<Longrightarrow> indicesWithin (getColumnIndices header) (length header)"
  unfolding getColumnIndices_def required_def indicesWithin_def
  using columnLoop_orderNumber [of header 0 "\<lparr>orderNumber = - 1, trackingNumber = - 1, carrierCode = - 1, title = - 1\<rparr>"]
    columnLoop_trackingNumber [of header 0 "\<lparr>orderNumber = - 1, trackingNumber = - 1, carrierCode = - 1, title = - 1\<rparr>"]
    columnLoop_carrierCode [of header 0 "\<lparr>orderNumber = - 1, trackingNumber = - 1, carrierCode = - 1, title = - 1\<rparr>"]
    columnLoop_title [of header 0 "\<lparr>orderNumber = - 1, trackingNumber = - 1, carrierCode = - 1, title = - 1\<rparr>"]
  by auto












section \<open>Row-level orchestration\<close>

lemma indicesWithin_inRange:
  "indicesWithin indices (length row) \<Longrightarrow>
     inRange row (orderNumber indices) \<and> inRange row (trackingNumber indices)
     \<and> inRange row (carrierCode indices) \<and> inRange row (title indices)"
  by (simp add: indicesWithin_def inRange_def)

lemma processRow_invalid:
  assumes "indicesWithin indices (length row)" "Validate (rowInfo row indices) = Some e"
  shows "processRow c L env row indices tr = (Returns (Some (Wrap ''invalid tracking info'' e)), tr)"
  using indicesWithin_inRange [OF assms(1)] assms(2)
  by (simp add: processRow_def rowInfo_def)

lemma processRow_no_order:
  assumes "indicesWithin indices (length row)" "Validate (rowInfo row indices) = None"
    and "GetOrderByIncrementID c L env (OrderNumber (rowInfo row indices)) tr = (Inl e, tr1)"
  shows "processRow c L env row indices tr = (Returns (Some (Wrap ''failed to get order'' e)), tr1)"
  using indicesWithin_inRange [OF assms(1)] assms(2,3)
  by (simp add: processRow_def rowInfo_def)

lemma processRow_shipments_error:
  assumes "indicesWithin indices (length row)" "Validate (rowInfo row indices) = None"
    and "GetOrderByIncrementID c L env (OrderNumber (rowInfo row indices)) tr = (Inr order, tr1)"
    and "GetShipmentsByOrderID c L env (order_EntityID order) tr1 = (Inl e, tr2)"
  shows "processRow c L env row indices tr = (Returns (Some (Wrap ''failed to get shipments'' e)), tr2)"
  using indicesWithin_inRange [OF assms(1)] assms(2,3,4)
  by (simp add: processRow_def rowInfo_def)

lemma processRow_skip:
  assumes "indicesWithin indices (length row)" "Validate (rowInfo row indices) = None"
    and "GetOrderByIncrementID c L env (OrderNumber (rowInfo row indices)) tr = (Inr order, tr1)"
    and "GetShipmentsByOrderID c L env (order_EntityID order) tr1 = (Inr [], tr2)"
  shows "processRow c L env row indices tr = (Returns None, tr2)"
  using indicesWithin_inRange [OF assms(1)] assms(2,3,4)
  by (simp add: processRow_def rowInfo_def)

lemma processRow_update:
  assumes "indicesWithin indices (length row)" "Validate (rowInfo row indices) = None"
    and "GetOrderByIncrementID c L env (OrderNumber (rowInfo row indices)) tr = (Inr order, tr1)"
    and "GetShipmentsByOrderID c L env (order_EntityID order) tr1 = (Inr (shipment # rest), tr2)"
  shows "processRow c L env row indices tr =
     rowResult (AddTrackingToShipment c L env (shipment_EntityID shipment)
       (trackOf order (rowInfo row indices)) tr2)"
proof -
  obtain ra tr3 where a: "AddTrackingToShipment c L env (shipment_EntityID shipment)
       (trackOf order (rowInfo row indices)) tr2 = (ra, tr3)" by fastforce
  show ?thesis
    using indicesWithin_inRange [OF assms(1)] assms(2,3,4) a
    by (cases ra) (simp_all add: processRow_def rowResult_def a rowInfo_def trackOf_def)
qed

lemma rowResult_returns: "\<exists>r tr'. rowResult x = (Returns r, tr')"
  by (cases x) (auto simp: rowResult_def split: option.splits)

lemma processRow_returns:
  assumes w: "indicesWithin indices (length row)"
  shows "\<exists>r tr'. processRow c L env row indices tr = (Returns r, tr')"
proof (cases "Validate (rowInfo row indices)")
  case (Some e)
  from processRow_invalid [OF w Some] show ?thesis by simp
next
  case None
  obtain ro tr1 where o: "GetOrderByIncrementID c L env (OrderNumber (rowInfo row indices)) tr = (ro, tr1)"
    by fastforce
  show ?thesis
  proof (cases ro)
    case (Inl e)
    from processRow_no_order [OF w None o [unfolded Inl]] show ?thesis by simp
  next
    case (Inr order)
    obtain rs tr2 where s: "GetShipmentsByOrderID c L env (order_EntityID order) tr1 = (rs, tr2)"
      by fastforce
    show ?thesis
    proof (cases rs)
      case (Inl e)
      from processRow_shipments_error [OF w None o [unfolded Inr] s [unfolded Inl]]
      show ?thesis by simp
    next
      case shp: (Inr shipments)
      show ?thesis
      proof (cases shipments)
        case Nil
        from processRow_skip [OF w None o [unfolded Inr] s [unfolded shp Nil]]
        show ?thesis by simp
      next
        case (Cons shipment rest)
        from processRow_update [OF w None o [unfolded Inr] s [unfolded shp Cons]]
          rowResult_returns
        show ?thesis by simp
      qed
    qed
  qed
qed




lemmas client_defs =
  GetOrderByIncrementID_def GetShipmentsByOrderID_def AddTrackingToShipment_def
  doRequest_def doRequest_loop.simps NewRequest_def authorize_def Header_Set_def searchParams_def

lemma example_indices:
  "getColumnIndices exampleHeader = \<lparr>orderNumber = 0, trackingNumber = 1, carrierCode = 2, title = 3\<rparr>"
  by (simp add: getColumnIndices_def exampleHeader_def setColumn_def)







lemma example_add_tracking:
  "AddTrackingToShipment exampleClient exampleLib (envShop s) 21 track tr =
     (None, tr @ [EvDo \<lparr>req_method = ''POST'', req_url = ''https://shop.test/rest/V1/shipment/track'',
        req_header = [(''Authorization'', ''Bearer secret''), (''Content-Type'', ''application/json'')],
        req_body = Some ''parent-21''\<rparr> (Response 200 ''ok'')])"
  by (simp add: client_defs exampleClient_def exampleLib_def envShop_def second_def)




section \<open>File-level decision\<close>

lemma fileSuccess_iff:
  assumes "e \<le> 2 ^ 53" "r \<le> 2 ^ 53"
  shows "fileSuccess e r \<longleftrightarrow> e = 0 \<or> (r \<noteq> 0 \<and> 20 * e < r)"
proof (cases "e = 0")
  case True
  then show ?thesis by (simp add: fileSuccess_def)
next
  case e: False
  have fe: "f64_of_nat e = Finite (of_nat e)" using assms(1) by (rule f64_of_nat_exact)
  have fr: "f64_of_nat r = Finite (of_nat r)" using assms(2) by (rule f64_of_nat_exact)
  show ?thesis
  proof (cases "r = 0")
    case True
    then have "f64_of_nat r = Finite 0" using fr by simp
    with e True show ?thesis by (simp add: fileSuccess_def fe errorThreshold_value)
  next
    case False
    with e decision_pos [of e r] assms show ?thesis
      by (simp add: fileSuccess_def fe fr)
  qed
qed

lemma rate_iff:
  assumes "r \<noteq> 0"
  shows "(of_nat e / of_nat r :: rat) < 5 / 100 \<longleftrightarrow> 20 * e < r"
proof -
  have "(of_nat e / of_nat r :: rat) < 5 / 100 \<longleftrightarrow> (of_nat (20 * e) :: rat) < of_nat r"
    using assms by (simp add: field_simps)
  also have "\<dots> \<longleftrightarrow> 20 * e < r" by (simp only: of_nat_less_iff)
  finally show ?thesis .
qed

lemma Read_Nil: "remaining rd = [] \<Longrightarrow> Read rd = (EOF, rd)"
  by (simp add: Read_def)

lemma Read_unreadable:
  "remaining rd = x # xs \<Longrightarrow> 0 < FieldsPerRecord rd \<Longrightarrow> \<not> readable (FieldsPerRecord rd) x \<Longrightarrow>
     Read rd = (ReadError, rd\<lparr>remaining := xs\<rparr>)"
  by (auto simp: Read_def readable_def split: raw.splits)

lemma Read_readable:
  "remaining rd = x # xs \<Longrightarrow> 0 < FieldsPerRecord rd \<Longrightarrow> readable (FieldsPerRecord rd) x \<Longrightarrow>
     \<exists>fs. x = Fields fs \<and> length fs = FieldsPerRecord rd \<and> Read rd = (Record fs, rd\<lparr>remaining := xs\<rparr>)"
  by (auto simp: Read_def readable_def split: raw.splits)

lemma rowLoop_error:
  "Read rd = (ReadError, rd') \<Longrightarrow>
     rowLoop c L env indices rd rowCount errorCount tr =
     rowLoop c L env indices rd' rowCount (errorCount + 1) (tr @ [EvRead ReadError])"
  by (subst rowLoop.simps) simp

lemma rowLoop_counts:
  assumes "0 < n" "indicesWithin indices n"
  shows "FieldsPerRecord rd = n \<Longrightarrow>
     \<exists>rowCount' errorCount' tr'.
       rowLoop c L env indices rd rowCount errorCount tr = (Returns (rowCount', errorCount'), tr')
       \<and> rowCount' = rowCount + length (filter (readable n) (remaining rd))
       \<and> errorCount + length (filter (\<lambda>x. \<not> readable n x) (remaining rd)) \<le> errorCount'
       \<and> errorCount' \<le> errorCount + length (remaining rd)"
proof (induction "remaining rd" arbitrary: rd rowCount errorCount tr)
  case Nil
  then have "Read rd = (EOF, rd)" by (simp add: Read_Nil)
  then have "rowLoop c L env indices rd rowCount errorCount tr
      = (Returns (rowCount, errorCount), tr @ [EvRead EOF])"
    by (subst rowLoop.simps) simp
  with Nil show ?case by simp
next
  case (Cons x xs)
  define rd' where "rd' = rd\<lparr>remaining := xs\<rparr>"
  have rd': "xs = remaining rd'" "FieldsPerRecord rd' = n"
    using Cons.prems by (simp_all add: rd'_def)
  have rem: "remaining rd = x # xs" using Cons.hyps(2) by simp
  have fp: "0 < FieldsPerRecord rd" using Cons.prems assms(1) by simp
  show ?case
  proof (cases "readable n x")
    case False
    then have "Read rd = (ReadError, rd')"
      using Read_unreadable [OF rem fp] Cons.prems by (simp add: rd'_def)
    then have l: "rowLoop c L env indices rd rowCount errorCount tr =
        rowLoop c L env indices rd' rowCount (errorCount + 1) (tr @ [EvRead ReadError])"
      by (rule rowLoop_error)
    from Cons.hyps(1) [OF rd', of rowCount "errorCount + 1" "tr @ [EvRead ReadError]"]
    show ?thesis unfolding l using False rem rd'(1) by auto
  next
    case True
    then obtain fs where fs: "x = Fields fs" "length fs = n" "Read rd = (Record fs, rd')"
      using Read_readable [OF rem fp] Cons.prems by (auto simp: rd'_def)
    from processRow_returns [of indices fs c L env "tr @ [EvRead (Record fs)]"] assms(2) fs(2)
    obtain r tr1 where p: "processRow c L env fs indices (tr @ [EvRead (Record fs)]) = (Returns r, tr1)"
      by auto
    show ?thesis
    proof (cases r)
      case None
      have l: "rowLoop c L env indices rd rowCount errorCount tr =
          rowLoop c L env indices rd' (rowCount + 1) errorCount tr1"
        using fs(3) p None by (subst rowLoop.simps) simp
      from Cons.hyps(1) [OF rd', of "rowCount + 1" errorCount tr1]
      show ?thesis unfolding l using True rem rd'(1) by auto
    next
      case (Some e)
      have l: "rowLoop c L env indices rd rowCount errorCount tr =
          rowLoop c L env indices rd' (rowCount + 1) (errorCount + 1) tr1"
        using fs(3) p Some by (subst rowLoop.simps) simp
      from Cons.hyps(1) [OF rd', of "rowCount + 1" "errorCount + 1" tr1]
      show ?thesis unfolding l using True rem rd'(1) by auto
    qed
  qed
qed

lemma rowLoop_unreadable:
  assumes "0 < n"
  shows "FieldsPerRecord rd = n \<Longrightarrow> \<forall>x \<in> set (remaining rd). \<not> readable n x \<Longrightarrow>
     rowLoop c L env indices rd rowCount errorCount tr =
       (Returns (rowCount, errorCount + length (remaining rd)),
        tr @ replicate (length (remaining rd)) (EvRead ReadError) @ [EvRead EOF])"
proof (induction "remaining rd" arbitrary: rd errorCount tr)
  case Nil
  then have "Read rd = (EOF, rd)" by (simp add: Read_Nil)
  then have "rowLoop c L env indices rd rowCount errorCount tr
      = (Returns (rowCount, errorCount), tr @ [EvRead EOF])"
    by (subst rowLoop.simps) simp
  with Nil show ?case by simp
next
  case (Cons x xs)
  define rd' where "rd' = rd\<lparr>remaining := xs\<rparr>"
  have rem: "remaining rd = x # xs" using Cons.hyps(2) by simp
  have rd': "xs = remaining rd'" "FieldsPerRecord rd' = n" "\<forall>x \<in> set (remaining rd'). \<not> readable n x"
    using Cons.prems rem by (simp_all add: rd'_def)
  have fp: "0 < FieldsPerRecord rd" using Cons.prems assms by simp
  have "\<not> readable (FieldsPerRecord rd) x" using Cons.prems rem by simp
  then have "Read rd = (ReadError, rd')"
    using Read_unreadable [OF rem fp] by (simp add: rd'_def)
  then have l: "rowLoop c L env indices rd rowCount errorCount tr =
      rowLoop c L env indices rd' rowCount (errorCount + 1) (tr @ [EvRead ReadError])"
    by (rule rowLoop_error)
  show ?case
    unfolding l Cons.hyps(1) [OF rd', of "errorCount + 1" "tr @ [EvRead ReadError]"]
    using rem rd'(1) by (simp add: replicate_append_same)
qed

lemma Read_header:
  "Read (NewReader (Fields header # rest)) =
     (Record header, \<lparr>remaining = rest, FieldsPerRecord = length header\<rparr>)"
  by (simp add: Read_def NewReader_def)

lemma required_length: "set required \<subseteq> set header \<Longrightarrow> 0 < length header"
  by (cases header) (simp_all add: required_def)

lemma f64_round_cases: "(\<exists>a. f64_round x = Finite a) \<or> f64_round x = PosInf"
  by (simp add: f64_round_def Let_def)

lemma fileSuccess_no_rows: "0 < e \<Longrightarrow> \<not> fileSuccess e 0"
proof -
  assume e: "0 < e"
  have z: "f64_of_nat 0 = Finite 0" by (simp add: f64_of_nat_def f64_round_def)
  from f64_round_cases [of "of_nat e"]
  have "f64_div (f64_of_nat e) (Finite 0) = NaN \<or> f64_div (f64_of_nat e) (Finite 0) = PosInf"
    by (auto simp: f64_of_nat_def split: if_splits)
  then have "\<not> f64_less (f64_div (f64_of_nat e) (f64_of_nat 0)) errorThreshold"
    unfolding z by (auto simp: errorThreshold_value)
  with e show ?thesis by (simp add: fileSuccess_def)
qed

text \<open>
  Claim C6.  When the header lacks one of the four required column names, the file is
  rejected and the trace gains the read of the header and nothing else: no data row is
  read and no request is sent.
\<close>

theorem processCSVFile_missing_column:
  assumes "\<not> set required \<subseteq> set header"
  shows "processCSVFile c L env (Some (Fields header # rest)) tr =
     (Returns False, tr @ [EvRead (Record header)])"
  using getColumnIndices_missing [of header] assms
  by (simp add: processCSVFile_def Read_header Let_def)

theorem processCSVFile_missing_column_witness:
  "processCSVFile exampleClient exampleLib (envShop ''two-shipments'')
     (Some [Fields [''order_number'', ''tracking_number'', ''title''], Fields [''1001'', ''1Z999'', ''UPS'']]) []
   = (Returns False, [EvRead (Record [''order_number'', ''tracking_number'', ''title''])])"
proof -
  have "\<not> set required \<subseteq> set [''order_number'', ''tracking_number'', ''title'']"
    by (simp add: required_def)
  from processCSVFile_missing_column [OF this] show ?thesis by simp
qed

text \<open>
  Claim C10.  A failed read goes on with \<open>errorCount + 1\<close> and the same \<open>rowCount\<close>; after
  a valid header \<open>rowCount\<close> is the number of records that read as rows, and \<open>errorCount\<close>
  is at least the number of the others.  When there are data records and none of them
  reads, the loop ends with \<open>rowCount = 0\<close> and \<open>errorCount\<close> their number, no request is
  sent, and the file is judged failed.
\<close>

theorem processCSVFile_unreadable_rows:
  assumes "set required \<subseteq> set header"
  shows "(Read rd = (ReadError, rd') \<longrightarrow>
            rowLoop c L env indices rd rowCount errorCount h =
            rowLoop c L env indices rd' rowCount (errorCount + 1) (h @ [EvRead ReadError]))
    \<and> (\<exists>rows errors tr'.
          rowLoop c L env (getColumnIndices header)
            \<lparr>remaining = rest, FieldsPerRecord = length header\<rparr> 0 0 (tr @ [EvRead (Record header)])
            = (Returns (rows, errors), tr')
          \<and> rows = length (filter (readable (length header)) rest)
          \<and> length (filter (\<lambda>x. \<not> readable (length header) x) rest) \<le> errors)
    \<and> (rest \<noteq> [] \<and> (\<forall>x \<in> set rest. \<not> readable (length header) x) \<longrightarrow>
          rowLoop c L env (getColumnIndices header)
            \<lparr>remaining = rest, FieldsPerRecord = length header\<rparr> 0 0 (tr @ [EvRead (Record header)])
            = (Returns (0, length rest),
               tr @ EvRead (Record header) # replicate (length rest) (EvRead ReadError) @ [EvRead EOF])
          \<and> processCSVFile c L env (Some (Fields header # rest)) tr
            = (Returns False,
               tr @ EvRead (Record header) # replicate (length rest) (EvRead ReadError) @ [EvRead EOF]))"
proof (intro conjI impI)
  assume "Read rd = (ReadError, rd')"
  then show "rowLoop c L env indices rd rowCount errorCount h =
      rowLoop c L env indices rd' rowCount (errorCount + 1) (h @ [EvRead ReadError])"
    by (rule rowLoop_error)
next
  from rowLoop_counts [OF required_length [OF assms] getColumnIndices_within [OF assms],
      of "\<lparr>remaining = rest, FieldsPerRecord = length header\<rparr>" c L env 0 0 "tr @ [EvRead (Record header)]"]
  show "\<exists>rows errors tr'.
          rowLoop c L env (getColumnIndices header)
            \<lparr>remaining = rest, FieldsPerRecord = length header\<rparr> 0 0 (tr @ [EvRead (Record header)])
            = (Returns (rows, errors), tr')
          \<and> rows = length (filter (readable (length header)) rest)
          \<and> length (filter (\<lambda>x. \<not> readable (length header) x) rest) \<le> errors"
    by auto
next
  assume a: "rest \<noteq> [] \<and> (\<forall>x \<in> set rest. \<not> readable (length header) x)"
  from rowLoop_unreadable [OF required_length [OF assms],
      of "\<lparr>remaining = rest, FieldsPerRecord = length header\<rparr>" c L env "getColumnIndices header" 0 0
        "tr @ [EvRead (Record header)]"] a
  show l: "rowLoop c L env (getColumnIndices header)
            \<lparr>remaining = rest, FieldsPerRecord = length header\<rparr> 0 0 (tr @ [EvRead (Record header)])
            = (Returns (0, length rest),
               tr @ EvRead (Record header) # replicate (length rest) (EvRead ReadError) @ [EvRead EOF])"
    by simp
  have "\<not> fileSuccess (length rest) 0" using a by (intro fileSuccess_no_rows) simp
  moreover have "\<not> (orderNumber (getColumnIndices header) = - 1 \<or> trackingNumber (getColumnIndices header) = - 1
     \<or> carrierCode (getColumnIndices header) = - 1 \<or> title (getColumnIndices header) = - 1)"
    using getColumnIndices_missing [of header] assms by simp
  ultimately show "processCSVFile c L env (Some (Fields header # rest)) tr
            = (Returns False,
               tr @ EvRead (Record header) # replicate (length rest) (EvRead ReadError) @ [EvRead EOF])"
    using l by (simp add: processCSVFile_def Read_header Let_def)
qed

theorem processCSVFile_unreadable_rows_witness:
  "processCSVFile exampleClient exampleLib (envShop ''two-shipments'')
     (Some [Fields exampleHeader, Malformed, Fields [''1001'', ''1Z999'']]) []
   = (Returns False, [EvRead (Record exampleHeader), EvRead ReadError, EvRead ReadError, EvRead EOF])
   \<and> rowLoop exampleClient exampleLib (envShop ''two-shipments'') (getColumnIndices exampleHeader)
       \<lparr>remaining = [Malformed], FieldsPerRecord = 4\<rparr> 0 0 []
     = rowLoop exampleClient exampleLib (envShop ''two-shipments'') (getColumnIndices exampleHeader)
       \<lparr>remaining = [], FieldsPerRecord = 4\<rparr> 0 1 [EvRead ReadError]"
proof -
  have r: "set required \<subseteq> set exampleHeader" by (simp add: required_def exampleHeader_def)
  have u: "[Malformed, Fields [''1001'', ''1Z999'']] \<noteq> []
      \<and> (\<forall>x \<in> set [Malformed, Fields [''1001'', ''1Z999'']]. \<not> readable (length exampleHeader) x)"
    by (simp add: readable_def exampleHeader_def)
  have d: "Read \<lparr>remaining = [Malformed], FieldsPerRecord = 4\<rparr>
      = (ReadError, \<lparr>remaining = [], FieldsPerRecord = 4\<rparr>)"
    by (simp add: Read_def)
  from processCSVFile_unreadable_rows [OF r, where rest = "[Malformed, Fields [''1001'', ''1Z999'']]"
      and c = exampleClient and L = exampleLib and env = "envShop ''two-shipments''" and tr = "[]"
      and rd = "\<lparr>remaining = [Malformed], FieldsPerRecord = 4\<rparr>"
      and rd' = "\<lparr>remaining = [], FieldsPerRecord = 4\<rparr>"
      and indices = "getColumnIndices exampleHeader" and rowCount = 0 and errorCount = 0 and h = "[]"] u d
  show ?thesis by (simp add: numeral_2_eq_2)
qed

text \<open>
  Claim C1.  After a valid header the row loop returns counters, and the file is judged
  successful exactly when \<open>errorCount = 0\<close> or \<open>errorCount / rowCount < 0.05\<close> in exact
  arithmetic (\<open>rowCount\<close> not zero).  The source decides in \<open>float64\<close>; the two agree for
  files of up to \<open>2^53\<close> records.  100 rows with 4 errors succeed, 100 rows with 6 errors
  fail, no rows and no errors succeed.
\<close>

theorem processCSVFile_success_policy:
  assumes "set required \<subseteq> set header" "length rest \<le> 2 ^ 53"
  shows "(\<exists>rowCount errorCount tr'.
            rowLoop c L env (getColumnIndices header)
              \<lparr>remaining = rest, FieldsPerRecord = length header\<rparr> 0 0 (tr @ [EvRead (Record header)])
              = (Returns (rowCount, errorCount), tr')
            \<and> processCSVFile c L env (Some (Fields header # rest)) tr
              = (Returns (errorCount = 0
                   \<or> (rowCount \<noteq> 0 \<and> (of_nat errorCount / of_nat rowCount :: rat) < 5 / 100)), tr'))
       \<and> fileSuccess 4 100 \<and> \<not> fileSuccess 6 100 \<and> fileSuccess 0 0"
proof (intro conjI)
  from rowLoop_counts [OF required_length [OF assms(1)] getColumnIndices_within [OF assms(1)],
      of "\<lparr>remaining = rest, FieldsPerRecord = length header\<rparr>" c L env 0 0 "tr @ [EvRead (Record header)]"]
  obtain rowCount errorCount tr' where
    l: "rowLoop c L env (getColumnIndices header)
          \<lparr>remaining = rest, FieldsPerRecord = length header\<rparr> 0 0 (tr @ [EvRead (Record header)])
        = (Returns (rowCount, errorCount), tr')"
    and r: "rowCount = length (filter (readable (length header)) rest)"
    and e: "errorCount \<le> length rest"
    by auto
  have "rowCount \<le> length rest" unfolding r by (rule length_filter_le)
  with e assms(2) have b: "errorCount \<le> 2 ^ 53" "rowCount \<le> 2 ^ 53" by simp_all
  have "fileSuccess errorCount rowCount \<longleftrightarrow>
      errorCount = 0 \<or> (rowCount \<noteq> 0 \<and> (of_nat errorCount / of_nat rowCount :: rat) < 5 / 100)"
    using fileSuccess_iff [OF b] rate_iff [of rowCount errorCount] by auto
  moreover have "\<not> (orderNumber (getColumnIndices header) = - 1 \<or> trackingNumber (getColumnIndices header) = - 1
     \<or> carrierCode (getColumnIndices header) = - 1 \<or> title (getColumnIndices header) = - 1)"
    using getColumnIndices_missing [of header] assms(1) by simp
  ultimately have "processCSVFile c L env (Some (Fields header # rest)) tr
      = (Returns (errorCount = 0
           \<or> (rowCount \<noteq> 0 \<and> (of_nat errorCount / of_nat rowCount :: rat) < 5 / 100)), tr')"
    using l by (simp add: processCSVFile_def Read_header Let_def)
  with l show "\<exists>rowCount errorCount tr'.
            rowLoop c L env (getColumnIndices header)
              \<lparr>remaining = rest, FieldsPerRecord = length header\<rparr> 0 0 (tr @ [EvRead (Record header)])
              = (Returns (rowCount, errorCount), tr')
            \<and> processCSVFile c L env (Some (Fields header # rest)) tr
              = (Returns (errorCount = 0
                   \<or> (rowCount \<noteq> 0 \<and> (of_nat errorCount / of_nat rowCount :: rat) < 5 / 100)), tr')"
    by blast
next
  show "fileSuccess 4 100" using fileSuccess_iff [of 4 100] by simp
  show "\<not> fileSuccess 6 100" using fileSuccess_iff [of 6 100] by simp
  show "fileSuccess 0 0" by (simp add: fileSuccess_def)
qed

lemma rowLoop_eof:
  "Read rd = (EOF, rd') \<Longrightarrow>
     rowLoop c L env indices rd rowCount errorCount tr
       = (Returns (rowCount, errorCount), tr @ [EvRead EOF])"
  by (subst rowLoop.simps) simp

lemma rowLoop_failed:
  assumes "Read rd = (Record row, rd')"
    and "processRow c L env row indices (tr @ [EvRead (Record row)]) = (Returns (Some e), tr')"
  shows "rowLoop c L env indices rd rowCount errorCount tr =
     rowLoop c L env indices rd' (rowCount + 1) (errorCount + 1) tr'"
  using assms by (subst rowLoop.simps) simp

lemma example_file_counts:
  "rowLoop c L env (getColumnIndices exampleHeader)
     \<lparr>remaining = [Fields blankRow, Malformed], FieldsPerRecord = length exampleHeader\<rparr> 0 0 tr
   = (Returns (1, 2),
      tr @ [EvRead (Record blankRow), EvRead ReadError, EvRead EOF])"
proof -
  have r1: "Read \<lparr>remaining = [Fields blankRow, Malformed], FieldsPerRecord = length exampleHeader\<rparr>
      = (Record blankRow, \<lparr>remaining = [Malformed], FieldsPerRecord = length exampleHeader\<rparr>)"
    by (simp add: Read_def blankRow_def exampleHeader_def)
  have w: "indicesWithin (getColumnIndices exampleHeader) (length blankRow)"
    by (simp add: example_indices indicesWithin_def blankRow_def)
  have v: "Validate (rowInfo blankRow (getColumnIndices exampleHeader)) = Some (Required FOrderNumber)"
    by (simp add: example_indices rowInfo_def blankRow_def Validate_def TrimSpace_def
        leadingSpace_def spaceEncodings_def)
  have p: "processRow c L env blankRow (getColumnIndices exampleHeader) (tr @ [EvRead (Record blankRow)])
      = (Returns (Some (Wrap ''invalid tracking info'' (Required FOrderNumber))),
         tr @ [EvRead (Record blankRow)])"
    using w v by (rule processRow_invalid)
  have r2: "Read \<lparr>remaining = [Malformed], FieldsPerRecord = length exampleHeader\<rparr>
      = (ReadError, \<lparr>remaining = [], FieldsPerRecord = length exampleHeader\<rparr>)"
    by (simp add: Read_def)
  have r3: "Read \<lparr>remaining = [], FieldsPerRecord = length exampleHeader\<rparr>
      = (EOF, \<lparr>remaining = [], FieldsPerRecord = length exampleHeader\<rparr>)"
    by (simp add: Read_def)
  show ?thesis
    unfolding rowLoop_failed [OF r1 p] rowLoop_error [OF r2] rowLoop_eof [OF r3] by simp
qed

theorem processCSVFile_success_policy_witness:
  "processCSVFile exampleClient exampleLib (envShop ''no-shipments'')
     (Some [Fields exampleHeader, Fields blankRow, Malformed]) []
   = (Returns False,
      [EvRead (Record exampleHeader), EvRead (Record blankRow), EvRead ReadError, EvRead EOF])
   \<and> processCSVFile exampleClient exampleLib (envShop ''no-shipments'') (Some [Fields exampleHeader]) []
   = (Returns True, [EvRead (Record exampleHeader), EvRead EOF])"
proof -
  have r: "set required \<subseteq> set exampleHeader" by (simp add: required_def exampleHeader_def)
  have b: "length [Fields blankRow, Malformed] \<le> 2 ^ 53" by simp
  from processCSVFile_success_policy [OF r b, of exampleClient exampleLib "envShop ''no-shipments''" "[]"]
  obtain rowCount errorCount tr' where
    l: "rowLoop exampleClient exampleLib (envShop ''no-shipments'') (getColumnIndices exampleHeader)
          \<lparr>remaining = [Fields blankRow, Malformed], FieldsPerRecord = length exampleHeader\<rparr> 0 0
          ([] @ [EvRead (Record exampleHeader)]) = (Returns (rowCount, errorCount), tr')"
    and p: "processCSVFile exampleClient exampleLib (envShop ''no-shipments'')
          (Some (Fields exampleHeader # [Fields blankRow, Malformed])) []
        = (Returns (errorCount = 0
             \<or> (rowCount \<noteq> 0 \<and> (of_nat errorCount / of_nat rowCount :: rat) < 5 / 100)), tr')"
    by blast
  from l have "rowCount = 1" "errorCount = 2"
      "tr' = [EvRead (Record exampleHeader), EvRead (Record blankRow), EvRead ReadError, EvRead EOF]"
    unfolding example_file_counts by simp_all
  with p have first: "processCSVFile exampleClient exampleLib (envShop ''no-shipments'')
     (Some [Fields exampleHeader, Fields blankRow, Malformed]) []
   = (Returns False,
      [EvRead (Record exampleHeader), EvRead (Record blankRow), EvRead ReadError, EvRead EOF])"
    by simp
  have b0: "length ([] :: raw list) \<le> 2 ^ 53" by simp
  have e: "Read \<lparr>remaining = [], FieldsPerRecord = length exampleHeader\<rparr>
      = (EOF, \<lparr>remaining = [], FieldsPerRecord = length exampleHeader\<rparr>)"
    by (simp add: Read_def)
  from processCSVFile_success_policy [OF r b0, of exampleClient exampleLib "envShop ''no-shipments''" "[]"]
  obtain rowCount0 errorCount0 tr0 where
    l0: "rowLoop exampleClient exampleLib (envShop ''no-shipments'') (getColumnIndices exampleHeader)
          \<lparr>remaining = [], FieldsPerRecord = length exampleHeader\<rparr> 0 0
          ([] @ [EvRead (Record exampleHeader)]) = (Returns (rowCount0, errorCount0), tr0)"
    and p0: "processCSVFile exampleClient exampleLib (envShop ''no-shipments'')
          (Some (Fields exampleHeader # [])) []
        = (Returns (errorCount0 = 0
             \<or> (rowCount0 \<noteq> 0 \<and> (of_nat errorCount0 / of_nat rowCount0 :: rat) < 5 / 100)), tr0)"
    by blast
  from l0 have "errorCount0 = 0" "tr0 = [EvRead (Record exampleHeader), EvRead EOF]"
    unfolding rowLoop_eof [OF e] by simp_all
  with p0 have "processCSVFile exampleClient exampleLib (envShop ''no-shipments'') (Some [Fields exampleHeader]) []
   = (Returns True, [EvRead (Record exampleHeader), EvRead EOF])"
    by simp
  with first show ?thesis by simp
qed

end
